theory Spec2Isabelle
  imports Main "HOL-Library.Word"
begin

unbundle bit_operations_syntax

section \<open>Machine types\<close>

text \<open>
  \<^verbatim>\<open>unsigned char\<close> is an 8-bit word and \<^verbatim>\<open>unsigned short\<close> a 16-bit word, so that the
  narrowing conversions and the wrap-around of the EEPROM cursor are those of the C code.
  A byte count (\<^verbatim>\<open>size_t len\<close>) is a natural number below \<open>2 ^ 64\<close>; a sum taken in
  \<^verbatim>\<open>size_t\<close>, such as \<^verbatim>\<open>addr + len\<close> in the memory classifiers, is reduced modulo
  \<open>2 ^ 64\<close>. The buffers of this program hold at most 1023 bytes.
  The value of \<^verbatim>\<open>strtoul\<close>, which can be a negated number, keeps its reduction modulo
  \<open>2 ^ 64\<close>. C \<^verbatim>\<open>int\<close> values (statuses, error numbers, the config byte) are integers;
  none of the operations on them leaves the 32-bit range.
\<close>

type_synonym byte = "8 word"
type_synonym ushort = "16 word"

section \<open>Memory classification\<close>

text \<open>\<^verbatim>\<open>fx_is_external\<close>: Anchorchips EZ-USB or Cypress EZ-USB FX.\<close>

definition fx_is_external :: "ushort \<Rightarrow> nat \<Rightarrow> bool" where
  "fx_is_external addr len =
     (if addr \<le> 0x1b3f then (unat addr + len) mod 2 ^ 64 > 0x1b40 else True)"

text \<open>\<^verbatim>\<open>fx2_is_external\<close>: Cypress EZ-USB FX2.\<close>

definition fx2_is_external :: "ushort \<Rightarrow> nat \<Rightarrow> bool" where
  "fx2_is_external addr len =
     (if addr \<le> 0x1fff then (unat addr + len) mod 2 ^ 64 > 0x2000
      else if addr \<ge> 0xe000 \<and> addr \<le> 0xe1ff then (unat addr + len) mod 2 ^ 64 > 0xe200
      else True)"

text \<open>\<^verbatim>\<open>fx2lp_is_external\<close>: Cypress EZ-USB FX2LP.\<close>

definition fx2lp_is_external :: "ushort \<Rightarrow> nat \<Rightarrow> bool" where
  "fx2lp_is_external addr len =
     (if addr \<le> 0x3fff then (unat addr + len) mod 2 ^ 64 > 0x4000
      else if addr \<ge> 0xe000 \<and> addr \<le> 0xe1ff then (unat addr + len) mod 2 ^ 64 > 0xe200
      else True)"

text \<open>
  The half-open range \<open>[addr, addr + len)\<close> lies in the window \<open>[lo, hi]\<close>: it starts in
  the window and does not extend past \<open>hi + 1\<close>.
\<close>

definition in_window :: "nat \<Rightarrow> nat \<Rightarrow> ushort \<Rightarrow> nat \<Rightarrow> bool" where
  "in_window lo hi addr len \<longleftrightarrow> lo \<le> unat addr \<and> unat addr \<le> hi \<and> unat addr + len \<le> hi + 1"


section \<open>The transport: vendor control requests through usbfs\<close>

text \<open>
  The device and the kernel are outside the program. A control request is the
  \<^verbatim>\<open>struct usbdevfs_ctrltransfer\<close> handed to \<^verbatim>\<open>ioctl\<close>; a buffer and its length are one list,
  so \<open>ctrl_data\<close> holds the \<^verbatim>\<open>length\<close> bytes at \<^verbatim>\<open>data\<close> when the request is issued.
  \<^verbatim>\<open>ioctl\<close> returns the number of bytes transferred (for a read, with the bytes received), or
  fails: it then returns \<open>-1\<close> and sets \<^verbatim>\<open>errno\<close>.
\<close>

record usbdevfs_ctrltransfer =
  bRequestType :: byte
  bRequest :: byte
  wValue :: ushort
  wIndex :: ushort
  wLength :: ushort
  ctrl_timeout :: nat
  ctrl_data :: "byte list"

datatype ioctl_result = Transferred nat "byte list" | Failed int

type_synonym usb_event = "int \<times> usbdevfs_ctrltransfer \<times> ioctl_result"

text \<open>
  The world of one run: how the device answers a request after a given history (any
  function: the theorems hold for every device), the requests issued so far with their answers,
  the C variable \<^verbatim>\<open>errno\<close>, the files that \<^verbatim>\<open>fopen\<close> can open for reading (a path to
  its content) and the global \<^verbatim>\<open>verbose\<close>. Diagnostic output (\<^verbatim>\<open>logerror\<close>) is not part
  of the model.
\<close>

record world =
  usbfs :: "usb_event list \<Rightarrow> int \<Rightarrow> usbdevfs_ctrltransfer \<Rightarrow> ioctl_result"
  trace :: "usb_event list"
  errno :: int
  files :: "string \<Rightarrow> string option"
  verbose :: int

definition EINVAL :: int where "EINVAL = 22"
definition EDOM :: int where "EDOM = 33"
definition ETIMEDOUT :: int where "ETIMEDOUT = 110"
definition USHRT_MAX :: nat where "USHRT_MAX = 65535"

definition USB_DIR_OUT :: byte where "USB_DIR_OUT = 0"
definition USB_DIR_IN :: byte where "USB_DIR_IN = 0x80"
definition USB_TYPE_VENDOR :: byte where "USB_TYPE_VENDOR = 0x40"
definition USB_RECIP_DEVICE :: byte where "USB_RECIP_DEVICE = 0"

definition RW_INTERNAL :: byte where "RW_INTERNAL = 0xA0"
definition RW_EEPROM :: byte where "RW_EEPROM = 0xA2"
definition RW_EEPROM_LARGE :: byte where "RW_EEPROM_LARGE = 0xA9"
definition RW_MEMORY :: byte where "RW_MEMORY = 0xA3"
definition GET_EEPROM_SIZE :: byte where "GET_EEPROM_SIZE = 0xA5"

text \<open>
  \<^verbatim>\<open>ioctl (device, USBDEVFS_CONTROL, &ctrl)\<close>: the request and its answer are appended to the
  trace. The result is the status, the buffer after the call (a read stores the bytes
  received, at most as many as the buffer holds) and the new world.
\<close>

definition ioctl_control :: "int \<Rightarrow> usbdevfs_ctrltransfer \<Rightarrow> world \<Rightarrow> int \<times> byte list \<times> world" where
  "ioctl_control device ctrl w =
     (let r = usbfs w (trace w) device ctrl;
          w' = w\<lparr>trace := trace w @ [(device, ctrl, r)]\<rparr>
      in case r of
           Transferred n bs \<Rightarrow>
             (int n,
              (if bRequestType ctrl AND USB_DIR_IN \<noteq> 0
               then (let got = take (length (ctrl_data ctrl)) bs
                     in got @ drop (length got) (ctrl_data ctrl))
               else ctrl_data ctrl),
              w')
         | Failed e \<Rightarrow> (- 1, ctrl_data ctrl, w'\<lparr>errno := e\<rparr>))"

definition ctrl_msg ::
  "int \<Rightarrow> byte \<Rightarrow> byte \<Rightarrow> ushort \<Rightarrow> ushort \<Rightarrow> byte list \<Rightarrow> world \<Rightarrow> int \<times> byte list \<times> world" where
  "ctrl_msg device requestType request val index buf w =
     (if length buf > USHRT_MAX then (- EINVAL, buf, w)
      else ioctl_control device
             \<lparr>bRequestType = requestType, bRequest = request, wValue = val, wIndex = index,
              wLength = of_nat (length buf), ctrl_timeout = 10000, ctrl_data = buf\<rparr> w)"

text \<open>\<^verbatim>\<open>ezusb_read\<close> and \<^verbatim>\<open>ezusb_write\<close>: the vendor-specific requests (the label is only logged).\<close>

definition ezusb_read :: "int \<Rightarrow> byte \<Rightarrow> ushort \<Rightarrow> byte list \<Rightarrow> world \<Rightarrow> int \<times> byte list \<times> world" where
  "ezusb_read device opcode addr buf w =
     ctrl_msg device (USB_DIR_IN OR USB_TYPE_VENDOR OR USB_RECIP_DEVICE) opcode addr 0 buf w"

definition ezusb_write :: "int \<Rightarrow> byte \<Rightarrow> ushort \<Rightarrow> byte list \<Rightarrow> world \<Rightarrow> int \<times> world" where
  "ezusb_write device opcode addr buf w =
     (case ctrl_msg device (USB_DIR_OUT OR USB_TYPE_VENDOR OR USB_RECIP_DEVICE) opcode addr 0 buf w of
        (status, _, w') \<Rightarrow> (status, w'))"

text \<open>\<^verbatim>\<open>ezusb_cpucs\<close>: stop or reset the CPU; the result is the C truth value.\<close>

definition ezusb_cpucs :: "int \<Rightarrow> ushort \<Rightarrow> bool \<Rightarrow> world \<Rightarrow> bool \<times> world" where
  "ezusb_cpucs device addr doRun w =
     (case ctrl_msg device (USB_DIR_OUT OR USB_TYPE_VENDOR OR USB_RECIP_DEVICE) RW_INTERNAL addr 0
             [if doRun then 0 else 1] w of
        (status, _, w') \<Rightarrow> (status = 1, w'))"

text \<open>\<^verbatim>\<open>ezusb_get_eeprom_type\<close>: a one-byte read into \<^verbatim>\<open>*data\<close>.\<close>

definition ezusb_get_eeprom_type :: "int \<Rightarrow> byte \<Rightarrow> world \<Rightarrow> int \<times> byte \<times> world" where
  "ezusb_get_eeprom_type fd val w =
     (case ezusb_read fd GET_EEPROM_SIZE 0 [val] w of
        (status, buf, w') \<Rightarrow> (status, hd buf, w'))"

text \<open>The request that \<^verbatim>\<open>ezusb_write\<close> hands to the kernel.\<close>

definition write_request :: "byte \<Rightarrow> ushort \<Rightarrow> byte list \<Rightarrow> usbdevfs_ctrltransfer" where
  "write_request opcode addr buf =
     \<lparr>bRequestType = 0x40, bRequest = opcode, wValue = addr, wIndex = 0,
      wLength = of_nat (length buf), ctrl_timeout = 10000, ctrl_data = buf\<rparr>"

section \<open>Erasing the EEPROM\<close>

text \<open>
  \<^verbatim>\<open>ezusb_erase_eeprom\<close>: the loop \<^verbatim>\<open>for (adr = 0; adr < 8192; adr += 32)\<close>, with the address
  narrowed to \<^verbatim>\<open>unsigned short\<close> at the call.
\<close>

function erase_loop :: "int \<Rightarrow> bool \<Rightarrow> int \<Rightarrow> world \<Rightarrow> int \<times> world" where
  "erase_loop dev large_eeprom adr w =
     (if adr < 8192 then
        (case ezusb_write dev (if large_eeprom then RW_EEPROM_LARGE else RW_EEPROM)
                (word_of_int adr) (replicate 32 0xff) w of
           (status, w') \<Rightarrow>
             if status < 0 then (status, w') else erase_loop dev large_eeprom (adr + 32) w')
      else (0, w))"
  by pat_completeness auto
termination
  by (relation "measure (\<lambda>(dev, large_eeprom, adr, w). nat (8192 - adr))") auto

declare erase_loop.simps [simp del]

definition ezusb_erase_eeprom :: "int \<Rightarrow> bool \<Rightarrow> world \<Rightarrow> int \<times> world" where
  "ezusb_erase_eeprom dev large_eeprom w = erase_loop dev large_eeprom 0 w"


section \<open>Parsing Intel HEX images\<close>

text \<open>
  \<^verbatim>\<open>fgets (buf, sizeof buf, image)\<close>: the stream is the list of the characters still to be
  read. At most \<open>n - 1\<close> characters are taken, up to and including a newline; at the
  end of the stream nothing is read and the result is \<^verbatim>\<open>NULL\<close>.
\<close>

fun fgets_chars :: "nat \<Rightarrow> string \<Rightarrow> string \<times> string" where
  "fgets_chars n [] = ([], [])"
| "fgets_chars n (c # s) =
     (if n = 0 then ([], c # s)
      else if c = CHR 0x0A then ([c], s)
      else (case fgets_chars (n - 1) s of (l, r) \<Rightarrow> (c # l, r)))"

definition fgets :: "nat \<Rightarrow> string \<Rightarrow> (string \<times> string) option" where
  "fgets n img = (if img = [] then None else Some (fgets_chars (n - 1) img))"

text \<open>
  \<^verbatim>\<open>strtoul (s, 0, 16)\<close> on a C string: white space, an optional sign, an optional
  \<^verbatim>\<open>0x\<close>, then the longest run of hexadecimal digits; no digits give 0, a minus sign
  negates in \<^verbatim>\<open>unsigned long\<close> (64 bits), too large a value gives \<^verbatim>\<open>ULONG_MAX\<close>.
\<close>

definition isspace :: "char \<Rightarrow> bool" where
  "isspace c \<longleftrightarrow> c \<in> {CHR '' '', CHR 0x09, CHR 0x0A, CHR 0x0B, CHR 0x0C, CHR 0x0D}"

definition hex_digit :: "char \<Rightarrow> nat option" where
  "hex_digit c =
     (let n = (of_char c :: nat) in
      if 48 \<le> n \<and> n \<le> 57 then Some (n - 48)
      else if 97 \<le> n \<and> n \<le> 102 then Some (n - 87)
      else if 65 \<le> n \<and> n \<le> 70 then Some (n - 55)
      else None)"

fun hex_digits :: "nat \<Rightarrow> string \<Rightarrow> nat" where
  "hex_digits acc [] = acc"
| "hex_digits acc (c # s) =
     (case hex_digit c of None \<Rightarrow> acc | Some d \<Rightarrow> hex_digits (acc * 16 + d) s)"

definition ULONG_MAX :: nat where "ULONG_MAX = 2 ^ 64 - 1"

definition strtoul :: "string \<Rightarrow> nat" where
  "strtoul s =
     (let s1 = dropWhile isspace s;
          neg = (s1 \<noteq> [] \<and> hd s1 = CHR ''-'');
          s2 = (if s1 \<noteq> [] \<and> (hd s1 = CHR ''-'' \<or> hd s1 = CHR ''+'') then tl s1 else s1);
          s3 = (case s2 of
                  z # x # d # t \<Rightarrow>
                    if z = CHR ''0'' \<and> (x = CHR ''x'' \<or> x = CHR ''X'') \<and> hex_digit d \<noteq> None
                    then d # t else s2
                | _ \<Rightarrow> s2);
          v = hex_digits 0 s3
      in if v > ULONG_MAX then ULONG_MAX
         else if neg then (2 ^ 64 - v) mod 2 ^ 64
         else v)"

text \<open>
  The line buffer. \<open>cstring\<close> is the C string at the start of a character array: the
  characters before the first NUL. \<open>strip_newline\<close> is
  \<^verbatim>\<open>cp = strchr (buf, '\n'); if (cp) *cp = 0;\<close>. \<open>field buf i j\<close> is the C string that
  \<^verbatim>\<open>strtoul\<close> sees at \<^verbatim>\<open>buf + i\<close> while \<^verbatim>\<open>buf[j]\<close> is overwritten with NUL. The array
  holds what \<^verbatim>\<open>fgets\<close> stored, followed by the terminating NUL; what lies behind that is
  not determined by the input.
\<close>

definition cstring :: "string \<Rightarrow> string" where
  "cstring buf = takeWhile (\<lambda>c. c \<noteq> CHR 0x00) buf"

definition strip_newline :: "string \<Rightarrow> string" where
  "strip_newline buf =
     (let n = length (takeWhile (\<lambda>c. c \<noteq> CHR 0x0A) (cstring buf))
      in if n < length (cstring buf) then buf[n := CHR 0x00] else buf)"

definition field :: "string \<Rightarrow> nat \<Rightarrow> nat \<Rightarrow> string" where
  "field buf i j = cstring (take (j - i) (drop i buf))"

text \<open>
  The state of the loop of \<^verbatim>\<open>parse_ihex\<close>: \<open>data\<close> holds the \<^verbatim>\<open>data_len\<close> bytes buffered
  in \<^verbatim>\<open>data [1023]\<close>. A run of the function returns a status, or its behaviour is not
  defined by the C code: a record line too short for its header fields makes the code
  read the array behind the terminating NUL, and a negated length field can pass the
  length check and then overflow \<^verbatim>\<open>data\<close>.
\<close>

record ihex_state =
  data_addr :: ushort
  data :: "byte list"
  first_line :: bool
  external :: bool

datatype outcome = Return int | Undefined

type_synonym 'c poke = "'c \<Rightarrow> ushort \<Rightarrow> bool \<Rightarrow> byte list \<Rightarrow> int \<times> 'c"

text \<open>
  One flush: \<^verbatim>\<open>if (is_external) external = is_external (data_addr, data_len);
  rc = poke (context, data_addr, external, data, data_len);\<close>
\<close>

definition flush :: "(ushort \<Rightarrow> nat \<Rightarrow> bool) option \<Rightarrow> 'c poke \<Rightarrow> ihex_state \<Rightarrow> 'c \<Rightarrow> int \<times> ihex_state \<times> 'c" where
  "flush is_external poke st ctx =
     (let st' = (case is_external of
                   None \<Rightarrow> st
                 | Some f \<Rightarrow> st\<lparr>external := f (data_addr st) (length (data st))\<rparr>)
      in case poke ctx (data_addr st') (external st') (data st') of
           (rc, ctx') \<Rightarrow> (rc, st', ctx'))"

text \<open>The code after the loop: \<^verbatim>\<open>flush any data remaining\<close>, then \<^verbatim>\<open>return 0\<close>.\<close>

definition flush_remaining :: "(ushort \<Rightarrow> nat \<Rightarrow> bool) option \<Rightarrow> 'c poke \<Rightarrow> ihex_state \<Rightarrow> 'c \<Rightarrow> outcome \<times> 'c" where
  "flush_remaining is_external poke st ctx =
     (if length (data st) \<noteq> 0 then
        (case flush is_external poke st ctx of
           (rc, st', ctx') \<Rightarrow> if rc < 0 then (Return (- 1), ctx') else (Return 0, ctx'))
      else (Return 0, ctx))"

text \<open>
  The body of the loop for one line that \<^verbatim>\<open>fgets\<close> has read: go on with the next line,
  leave the loop (\<^verbatim>\<open>break\<close>), or return.
\<close>

datatype 'c step = Continue ihex_state 'c | Break ihex_state 'c | Stop outcome 'c

definition record_bytes :: "string \<Rightarrow> nat \<Rightarrow> byte list" where
  "record_bytes buf len = map (\<lambda>idx. of_nat (strtoul (field buf (9 + 2 * idx) (11 + 2 * idx)))) [0..<len]"

text \<open>
  The end of the body, for a data record of \<open>len\<close> bytes at the offset \<open>off\<close>:
  \<^verbatim>\<open>flush the saved data if it's not contiguous, or when we've buffered as much as we can\<close>,
  then \<^verbatim>\<open>append to saved data, flush later\<close>. The bytes are read from the line in the
  appending loop; storing more than \<^verbatim>\<open>data\<close> holds is not defined.
\<close>

definition accumulate :: "(ushort \<Rightarrow> nat \<Rightarrow> bool) option \<Rightarrow> 'c poke \<Rightarrow> string \<Rightarrow> nat \<Rightarrow> nat \<Rightarrow> ihex_state \<Rightarrow> 'c \<Rightarrow> 'c step" where
  "accumulate is_external poke buf off len st ctx =
     (if length (data st) \<noteq> 0
         \<and> (off \<noteq> unat (data_addr st) + length (data st)
              \<or> (length (data st) + len) mod 2 ^ 64 > 1023)
      then
        (case flush is_external poke st ctx of
           (rc, st', ctx') \<Rightarrow>
             if rc < 0 then Stop (Return (- 1)) ctx'
             else if len > 1023 then Stop Undefined ctx'
             else Continue (st'\<lparr>data_addr := of_nat off, data := record_bytes buf len\<rparr>) ctx')
      else if length (data st) + len > 1023 then Stop Undefined ctx
      else Continue (st\<lparr>data := data st @ record_bytes buf len\<rparr>) ctx)"

text \<open>
  The middle of the body, for a record line without its newline: the length, the offset and
  the type are read, \<^verbatim>\<open>data_addr\<close> is initialised by the first record, then the type and the
  length of the line are checked.
\<close>

definition record_line :: "(ushort \<Rightarrow> nat \<Rightarrow> bool) option \<Rightarrow> 'c poke \<Rightarrow> string \<Rightarrow> ihex_state \<Rightarrow> 'c \<Rightarrow> 'c step" where
  "record_line is_external poke buf st ctx =
     (let len = strtoul (field buf 1 3);
          off = strtoul (field buf 3 7) mod 2 ^ 32;
          st1 = (if first_line st then st\<lparr>data_addr := of_nat off, first_line := False\<rparr> else st);
          type = strtoul (field buf 7 9) mod 256
      in if type = 1 then Break st1 ctx
         else if type \<noteq> 0 then Stop (Return (- 3)) ctx
         else if (len * 2 + 11) mod 2 ^ 64 > length (cstring buf) then Stop (Return (- 4)) ctx
         else accumulate is_external poke buf off len st1 ctx)"

definition loop_body :: "(ushort \<Rightarrow> nat \<Rightarrow> bool) option \<Rightarrow> 'c poke \<Rightarrow> string \<Rightarrow> ihex_state \<Rightarrow> 'c \<Rightarrow> 'c step" where
  "loop_body is_external poke line st ctx =
     (if hd line = CHR ''#'' then Continue st ctx
      else if hd line \<noteq> CHR '':'' then Stop (Return (- 2)) ctx
      else if length line < 7 then Stop Undefined ctx
      else record_line is_external poke (strip_newline line) st ctx)"

function parse_loop :: "(ushort \<Rightarrow> nat \<Rightarrow> bool) option \<Rightarrow> 'c poke \<Rightarrow> string \<Rightarrow> ihex_state \<Rightarrow> 'c \<Rightarrow> outcome \<times> 'c" where
  "parse_loop is_external poke img st ctx =
     (case fgets 512 img of
        None \<Rightarrow> flush_remaining is_external poke st ctx
      | Some (line, rest) \<Rightarrow>
          (case loop_body is_external poke line st ctx of
             Continue st' ctx' \<Rightarrow> parse_loop is_external poke rest st' ctx'
           | Break st' ctx' \<Rightarrow> flush_remaining is_external poke st' ctx'
           | Stop r ctx' \<Rightarrow> (r, ctx')))"
  by pat_completeness auto
termination
proof (relation "measure (\<lambda>(is_external, poke, img, st, ctx). length img)")
  show "wf (measure (\<lambda>(is_external, poke, img, st, ctx). length img))" by simp
next
  fix is_external :: "(ushort \<Rightarrow> nat \<Rightarrow> bool) option" and poke :: "'c poke"
    and img :: string and st :: ihex_state and ctx :: 'c
    and x2 :: "string \<times> string" and line rest :: string and st' :: ihex_state and ctx' :: 'c
  assume "fgets 512 img = Some x2" and "(line, rest) = x2"
  then have f: "fgets_chars 511 img = (line, rest)" and ne: "img \<noteq> []"
    by (auto simp: fgets_def split: if_splits)
  have "n \<noteq> 0 \<Longrightarrow> s \<noteq> [] \<Longrightarrow> length (snd (fgets_chars n s)) < length s" for n s
  proof (induction n s rule: fgets_chars.induct)
    case (1 n)
    then show ?case by simp
  next
    case (2 n c s)
    then show ?case
      by (cases s; cases "n - 1 = 0") (auto split: prod.splits)
  qed
  from this[of 511 img] f ne have "length rest < length img" by simp
  then show "((is_external, poke, rest, st', ctx'), (is_external, poke, img, st, ctx))
      \<in> measure (\<lambda>(is_external, poke, img, st, ctx). length img)"
    by simp
qed

declare parse_loop.simps [simp del]

text \<open>\<^verbatim>\<open>parse_ihex\<close>: the locals are initialised and the loop is entered.\<close>

definition parse_ihex :: "string \<Rightarrow> 'c \<Rightarrow> (ushort \<Rightarrow> nat \<Rightarrow> bool) option \<Rightarrow> 'c poke \<Rightarrow> outcome \<times> 'c" where
  "parse_ihex img ctx is_external poke =
     parse_loop is_external poke img
       \<lparr>data_addr = 0, data = [], first_line = True, external = False\<rparr> ctx"


section \<open>Writing to RAM\<close>

datatype ram_mode = undef | internal_only | skip_internal | skip_external

record ram_poke_context =
  device_r :: int
  mode :: ram_mode
  total_r :: "32 word"
  count_r :: "32 word"

definition RETRY_LIMIT :: nat where "RETRY_LIMIT = 5"

text \<open>
  The loop of \<^verbatim>\<open>ram_poke\<close>:
  \<^verbatim>\<open>while ((rc = ezusb_write (...)) < 0 && retry < RETRY_LIMIT) { if (errno != ETIMEDOUT) break; retry += 1; }\<close>
\<close>

function retry_loop :: "int \<Rightarrow> ushort \<Rightarrow> bool \<Rightarrow> byte list \<Rightarrow> nat \<Rightarrow> world \<Rightarrow> int \<times> world" where
  "retry_loop device addr ext buf retry w =
     (case ezusb_write device (if ext then RW_MEMORY else RW_INTERNAL) addr buf w of
        (rc, w') \<Rightarrow>
          if rc < 0 \<and> retry < RETRY_LIMIT then
            (if errno w' \<noteq> ETIMEDOUT then (rc, w')
             else retry_loop device addr ext buf (retry + 1) w')
          else (rc, w'))"
  by pat_completeness auto
termination
  by (relation "measure (\<lambda>(device, addr, ext, buf, retry, w). RETRY_LIMIT - retry)") auto

declare retry_loop.simps [simp del]

text \<open>The \<^verbatim>\<open>switch (ctx->mode)\<close> of \<^verbatim>\<open>ram_poke\<close>: the status it returns, or \<open>None\<close> after \<^verbatim>\<open>break\<close>.\<close>

definition mode_switch :: "ram_mode \<Rightarrow> bool \<Rightarrow> int option" where
  "mode_switch m ext =
     (case m of
        internal_only \<Rightarrow> if ext then Some (- EINVAL) else None
      | skip_internal \<Rightarrow> if \<not> ext then Some 0 else None
      | skip_external \<Rightarrow> if ext then Some 0 else None
      | undef \<Rightarrow> Some (- EDOM))"

definition ram_poke :: "(ram_poke_context \<times> world) poke" where
  "ram_poke cw addr ext buf =
     (case cw of (ctx, w) \<Rightarrow>
        (case mode_switch (mode ctx) ext of
           Some rc \<Rightarrow> (rc, cw)
         | None \<Rightarrow>
             (let ctx' = ctx\<lparr>total_r := total_r ctx + of_nat (length buf), count_r := count_r ctx + 1\<rparr>
              in case retry_loop (device_r ctx) addr ext buf 0 w of
                   (rc, w') \<Rightarrow> ((if rc < 0 then - errno w' else 0), (ctx', w')))))"

text \<open>
  \<^verbatim>\<open>ezusb_load_ram\<close>. With \<^verbatim>\<open>verbose\<close> set the code divides \<^verbatim>\<open>ctx.total\<close> by \<^verbatim>\<open>ctx.count\<close>
  for its last message, which is not defined when no segment was written.
\<close>

definition load_ram_finish :: "int \<Rightarrow> ushort \<Rightarrow> ram_poke_context \<times> world \<Rightarrow> outcome \<times> world" where
  "load_ram_finish fd cpucs_addr cw =
     (case cw of (ctx, w) \<Rightarrow>
        if verbose w \<noteq> 0 \<and> count_r ctx = 0 then (Undefined, w)
        else (case ezusb_cpucs fd cpucs_addr True w of
                (ok, w') \<Rightarrow> if \<not> ok then (Return (- 1), w') else (Return 0, w')))"

definition load_ram_second :: "int \<Rightarrow> string \<Rightarrow> ushort \<Rightarrow> (ushort \<Rightarrow> nat \<Rightarrow> bool) \<Rightarrow> int \<Rightarrow> ram_poke_context \<times> world \<Rightarrow> outcome \<times> world" where
  "load_ram_second fd img cpucs_addr is_external stage cw =
     (if stage \<noteq> 0 then
        (case cw of (ctx, w) \<Rightarrow>
           (case ezusb_cpucs fd cpucs_addr False w of
              (ok, w1) \<Rightarrow>
                if \<not> ok then (Return (- 1), w1)
                else (case parse_ihex img (ctx\<lparr>mode := skip_external\<rparr>, w1) (Some is_external) ram_poke of
                        (Undefined, cw') \<Rightarrow> (Undefined, snd cw')
                      | (Return status, cw') \<Rightarrow>
                          if status < 0 then (Return status, snd cw')
                          else load_ram_finish fd cpucs_addr cw')))
      else load_ram_finish fd cpucs_addr cw)"

definition ezusb_load_ram :: "int \<Rightarrow> string \<Rightarrow> int \<Rightarrow> int \<Rightarrow> world \<Rightarrow> outcome \<times> world" where
  "ezusb_load_ram fd path fx2 stage w =
     (case files w path of
        None \<Rightarrow> (Return (- 2), w)
      | Some img \<Rightarrow>
          (let cpucs_addr = (if fx2 = 2 then 0xe600 else if fx2 \<noteq> 0 then 0xe600 else 0x7f92);
               is_external = (if fx2 = 2 then fx2lp_is_external
                              else if fx2 \<noteq> 0 then fx2_is_external else fx_is_external)
           in case (if stage = 0 then ezusb_cpucs fd cpucs_addr False w else (True, w)) of
                (ok, w1) \<Rightarrow>
                  if \<not> ok then (Return (- 1), w1)
                  else (case parse_ihex img
                               (\<lparr>device_r = fd, mode = (if stage = 0 then internal_only else skip_internal),
                                 total_r = 0, count_r = 0\<rparr>, w1)
                               (Some is_external) ram_poke of
                          (Undefined, cw') \<Rightarrow> (Undefined, snd cw')
                        | (Return status, cw') \<Rightarrow>
                            if status < 0 then (Return status, snd cw')
                            else load_ram_second fd img cpucs_addr is_external stage cw')))"

section \<open>Writing to the EEPROM\<close>

record eeprom_poke_context =
  device_e :: int
  ee_addr :: ushort
  last_e :: bool
  eeprom_request :: byte

definition eeprom_poke :: "(eeprom_poke_context \<times> world) poke" where
  "eeprom_poke cw addr ext buf =
     (case cw of (ctx, w) \<Rightarrow>
        if ext then (- EINVAL, cw)
        else if length buf > 1023 then (- EDOM, cw)
        else
          (let header = [of_nat (length buf div 256) OR (if last_e ctx then 0x80 else 0),
                         of_nat (length buf), ucast (drop_bit 8 addr), ucast addr]
           in case ezusb_write (device_e ctx) (eeprom_request ctx) (ee_addr ctx) header w of
                (rc, w1) \<Rightarrow>
                  if rc < 0 then (rc, (ctx, w1))
                  else (case ezusb_write (device_e ctx) (eeprom_request ctx) (ee_addr ctx + 4) buf w1 of
                          (rc, w2) \<Rightarrow>
                            if rc < 0 then (rc, (ctx, w2))
                            else (0, (ctx\<lparr>ee_addr := ee_addr ctx + 4 + of_nat (length buf)\<rparr>, w2)))))"

text \<open>
  \<^verbatim>\<open>ezusb_load_eeprom\<close>. The locals that the chain of \<^verbatim>\<open>strcmp\<close> tests sets for a chip
  variant; \<open>None\<close> is its \<^verbatim>\<open>return -1\<close> (an unknown variant, or \<^verbatim>\<open>fx\<close> or \<^verbatim>\<open>an21\<close> without a
  path).
\<close>

record variant =
  first_byte :: byte
  cpucs_addr_v :: ushort
  is_external_v :: "ushort \<Rightarrow> nat \<Rightarrow> bool"
  ee_addr_v :: ushort
  config_v :: int
  ww_vid_v :: ushort
  ww_pid_v :: ushort

definition select_variant :: "string \<Rightarrow> bool \<Rightarrow> int \<Rightarrow> variant option" where
  "select_variant type has_path config =
     (if type = ''fx2'' then
        Some \<lparr>first_byte = (if has_path then 0xC2 else 0xC0), cpucs_addr_v = 0xe600,
              is_external_v = fx2_is_external, ee_addr_v = 8, config_v = config AND 0x4f,
              ww_vid_v = 0x04B4, ww_pid_v = 0x6473\<rparr>
      else if type = ''fx2lp'' then
        Some \<lparr>first_byte = (if has_path then 0xC2 else 0xC0), cpucs_addr_v = 0xe600,
              is_external_v = fx2lp_is_external, ee_addr_v = 8, config_v = config AND 0x4f,
              ww_vid_v = 0x04B4, ww_pid_v = 0x8613\<rparr>
      else if type = ''fx'' then
        (if \<not> has_path then None
         else Some \<lparr>first_byte = 0xB6, cpucs_addr_v = 0x7f92,
                    is_external_v = fx_is_external, ee_addr_v = 9, config_v = config AND 0x07,
                    ww_vid_v = 0, ww_pid_v = 0\<rparr>)
      else if type = ''an21'' then
        (if \<not> has_path then None
         else Some \<lparr>first_byte = 0xB2, cpucs_addr_v = 0x7f92,
                    is_external_v = fx_is_external, ee_addr_v = 7, config_v = 0,
                    ww_vid_v = 0, ww_pid_v = 0\<rparr>)
      else None)"

text \<open>
  The first part: with a path, the EEPROM type is read and the image opened. The local
  \<^verbatim>\<open>value\<close> is not initialised; \<open>val0\<close> is what it holds when the read stores nothing.
  The result is the status returned, or the image (if any) to go on with.
\<close>

definition open_image :: "int \<Rightarrow> string option \<Rightarrow> byte \<Rightarrow> world \<Rightarrow> (int + string option) \<times> world" where
  "open_image dev path val0 w =
     (case path of
        None \<Rightarrow> (Inr None, w)
      | Some p \<Rightarrow>
          (case ezusb_get_eeprom_type dev val0 w of
             (status, val, w1) \<Rightarrow>
               if (status \<noteq> 1 \<or> val \<noteq> 1) \<and> val \<noteq> 0 then (Inl (- 1), w1)
               else (case files w1 p of
                       None \<Rightarrow> (Inl (- 2), w1)
                     | Some img \<Rightarrow> (Inr (Some img), w1))))"

text \<open>The last step: \<^verbatim>\<open>make the EEPROM say to boot from this EEPROM\<close>.\<close>

definition write_type_byte :: "int \<Rightarrow> byte \<Rightarrow> variant \<Rightarrow> world \<Rightarrow> outcome \<times> world" where
  "write_type_byte dev req v w =
     (case ezusb_write dev req 0 [first_byte v] w of
        (status, w') \<Rightarrow> if status < 0 then (Return status, w') else (Return 0, w'))"

text \<open>\<^verbatim>\<open>EZ-USB FX has a reserved byte\<close>.\<close>

definition write_reserved_byte :: "int \<Rightarrow> byte \<Rightarrow> string \<Rightarrow> variant \<Rightarrow> world \<Rightarrow> outcome \<times> world" where
  "write_reserved_byte dev req type v w =
     (if type = ''fx'' then
        (case ezusb_write dev req 8 [0] w of
           (status, w') \<Rightarrow> if status < 0 then (Return status, w') else write_type_byte dev req v w')
      else write_type_byte dev req v w)"

text \<open>\<^verbatim>\<open>write the config byte for FX, FX2\<close>.\<close>

definition write_config_byte :: "int \<Rightarrow> byte \<Rightarrow> string \<Rightarrow> variant \<Rightarrow> world \<Rightarrow> outcome \<times> world" where
  "write_config_byte dev req type v w =
     (if type \<noteq> ''an21'' then
        (case ezusb_write dev req 7 [of_int (config_v v)] w of
           (status, w') \<Rightarrow> if status < 0 then (Return status, w') else write_reserved_byte dev req type v w')
      else write_reserved_byte dev req type v w)"

text \<open>\<^verbatim>\<open>scan the image, write to EEPROM\<close>, then \<^verbatim>\<open>append a reset command\<close>.\<close>

definition write_image :: "int \<Rightarrow> byte \<Rightarrow> string \<Rightarrow> variant \<Rightarrow> string option \<Rightarrow> world \<Rightarrow> outcome \<times> world" where
  "write_image dev req type v image_opt w =
     (case image_opt of
        None \<Rightarrow> write_config_byte dev req type v w
      | Some img \<Rightarrow>
          (case parse_ihex img
                  (\<lparr>device_e = dev, ee_addr = ee_addr_v v, last_e = False, eeprom_request = req\<rparr>, w)
                  (Some (is_external_v v)) eeprom_poke of
             (Undefined, cw) \<Rightarrow> (Undefined, snd cw)
           | (Return status, cw) \<Rightarrow>
               if status < 0 then (Return status, snd cw)
               else (case eeprom_poke (fst cw\<lparr>last_e := True\<rparr>, snd cw) (cpucs_addr_v v) False [0] of
                       (status, cw') \<Rightarrow>
                         if status < 0 then (Return status, snd cw')
                         else write_config_byte dev req type v (snd cw'))))"

text \<open>The identity record: \<^verbatim>\<open>if (ww_vid && ww_pid)\<close> six bytes are written at offset 1.\<close>

definition identity_record :: "ushort \<Rightarrow> ushort \<Rightarrow> byte list" where
  "identity_record ww_vid ww_pid =
     [ucast (ww_vid AND 0xff), ucast (drop_bit 8 ww_vid AND 0xff),
      ucast (ww_pid AND 0xff), ucast (drop_bit 8 ww_pid AND 0xff), 0x05, 0xa0]"

definition resolve_id :: "int \<Rightarrow> ushort \<Rightarrow> ushort" where
  "resolve_id ww_config_id dflt = (if ww_config_id \<ge> 0 then word_of_int ww_config_id else dflt)"

definition write_ids :: "int \<Rightarrow> byte \<Rightarrow> string \<Rightarrow> variant \<Rightarrow> string option \<Rightarrow> int \<Rightarrow> int \<Rightarrow> world \<Rightarrow> outcome \<times> world" where
  "write_ids dev req type v image_opt ww_config_vid ww_config_pid w =
     (let ww_vid = resolve_id ww_config_vid (ww_vid_v v);
          ww_pid = resolve_id ww_config_pid (ww_pid_v v)
      in if ww_vid \<noteq> 0 \<and> ww_pid \<noteq> 0 then
           (case ezusb_write dev req 1 (identity_record ww_vid ww_pid) w of
              (status, w') \<Rightarrow>
                if status < 0 then (Return status, w') else write_image dev req type v image_opt w')
         else write_image dev req type v image_opt w)"

text \<open>\<^verbatim>\<open>make sure the EEPROM won't be used for booting, in case of problems writing it\<close>.\<close>

definition mark_unbootable :: "int \<Rightarrow> byte \<Rightarrow> string \<Rightarrow> variant \<Rightarrow> string option \<Rightarrow> int \<Rightarrow> int \<Rightarrow> world \<Rightarrow> outcome \<times> world" where
  "mark_unbootable dev req type v image_opt ww_config_vid ww_config_pid w =
     (case ezusb_write dev req 0 [0x00] w of
        (status, w') \<Rightarrow>
          if status < 0 then (Return status, w')
          else write_ids dev req type v image_opt ww_config_vid ww_config_pid w')"

definition ezusb_load_eeprom ::
  "int \<Rightarrow> string option \<Rightarrow> string \<Rightarrow> int \<Rightarrow> bool \<Rightarrow> int \<Rightarrow> int \<Rightarrow> byte \<Rightarrow> world \<Rightarrow> outcome \<times> world" where
  "ezusb_load_eeprom dev path type config large_eeprom ww_config_vid ww_config_pid val0 w =
     (case open_image dev path val0 w of
        (Inl status, w1) \<Rightarrow> (Return status, w1)
      | (Inr image_opt, w1) \<Rightarrow>
          (case select_variant type (path \<noteq> None) config of
             None \<Rightarrow> (Return (- 1), w1)
           | Some v \<Rightarrow>
               mark_unbootable dev (if large_eeprom then RW_EEPROM_LARGE else RW_EEPROM)
                 type v image_opt ww_config_vid ww_config_pid w1))"


section \<open>Observing a run\<close>

text \<open>
  The requests a run issues are the events it appends to the trace. An event is accepted
  when \<^verbatim>\<open>ioctl\<close> returned a non-negative status for it.
\<close>

definition status_of :: "ioctl_result \<Rightarrow> int" where
  "status_of r = (case r of Transferred n bs \<Rightarrow> int n | Failed e \<Rightarrow> - 1)"

definition issued :: "world \<Rightarrow> world \<Rightarrow> usb_event list" where
  "issued w w' = drop (length (trace w)) (trace w')"

definition ev_request :: "usb_event \<Rightarrow> int \<times> usbdevfs_ctrltransfer" where
  "ev_request e = (fst e, fst (snd e))"

definition ev_status :: "usb_event \<Rightarrow> int" where
  "ev_status e = status_of (snd (snd e))"

definition accepted :: "usb_event \<Rightarrow> bool" where
  "accepted e \<longleftrightarrow> 0 \<le> ev_status e"

text \<open>The \<open>k\<close>-th request of \<^verbatim>\<open>ezusb_erase_eeprom\<close>: 32 bytes \<open>0xff\<close> at address \<open>32 * k\<close>.\<close>

definition erase_chunk :: "bool \<Rightarrow> nat \<Rightarrow> usbdevfs_ctrltransfer" where
  "erase_chunk large_eeprom k =
     write_request (if large_eeprom then RW_EEPROM_LARGE else RW_EEPROM) (of_nat (32 * k))
       (replicate 32 0xff)"

definition ev_result :: "usb_event \<Rightarrow> ioctl_result" where
  "ev_result e = snd (snd e)"


text \<open>
  The events of a run are answers of the device: every event holds the answer that the
  device gives to its request after the history before it. A world \<open>w'\<close> follows a world
  \<open>w\<close> when it has the same device and files, and its trace extends that of \<open>w\<close> by
  events answered by the device.
\<close>

fun device_answers ::
  "(usb_event list \<Rightarrow> int \<Rightarrow> usbdevfs_ctrltransfer \<Rightarrow> ioctl_result) \<Rightarrow> usb_event list \<Rightarrow>
   usb_event list \<Rightarrow> bool" where
  "device_answers device h [] = True"
| "device_answers device h (e # es) =
     (ev_result e = device h (fst (ev_request e)) (snd (ev_request e)) \<and>
      device_answers device (h @ [e]) es)"

definition follows :: "world \<Rightarrow> world \<Rightarrow> bool" where
  "follows w w' \<longleftrightarrow>
     usbfs w' = usbfs w \<and> files w' = files w \<and> verbose w' = verbose w \<and>
     trace w' = trace w @ issued w w' \<and>
     device_answers (usbfs w) (trace w) (issued w w')"

text \<open>
  Devices for concrete runs: one that fails every request with \<^verbatim>\<open>EIO\<close>, one that accepts
  every request in full (a read delivers bytes of value 1), and the world that starts with
  an empty trace.
\<close>

definition dead_device :: "usb_event list \<Rightarrow> int \<Rightarrow> usbdevfs_ctrltransfer \<Rightarrow> ioctl_result" where
  "dead_device h d c = Failed 5"

definition good_device :: "usb_event list \<Rightarrow> int \<Rightarrow> usbdevfs_ctrltransfer \<Rightarrow> ioctl_result" where
  "good_device h d c = Transferred (length (ctrl_data c)) (replicate (length (ctrl_data c)) 1)"

definition world_of ::
  "(usb_event list \<Rightarrow> int \<Rightarrow> usbdevfs_ctrltransfer \<Rightarrow> ioctl_result) \<Rightarrow> (string \<Rightarrow> string option) \<Rightarrow> world" where
  "world_of device fs = \<lparr>usbfs = device, trace = [], errno = 0, files = fs, verbose = 0\<rparr>"

text \<open>
  The header of an EEPROM segment as the four numbers it encodes: the high byte of the
  length with the mark of the last segment, the low byte of the length, the high and the
  low byte of the address.
\<close>

definition segment_header :: "bool \<Rightarrow> ushort \<Rightarrow> nat \<Rightarrow> byte list" where
  "segment_header last_segment addr len =
     [of_nat (len div 256) OR (if last_segment then 0x80 else 0), of_nat (len mod 256),
      of_nat (unat addr div 256), of_nat (unat addr mod 256)]"


section \<open>The segments of an image\<close>

text \<open>
  A segment is what the sink is called with: the address, the classification and the bytes.
  \<open>collect\<close> is the sink that only records its segments, so \<open>ihex_segments\<close> is the
  status and the segments of an image when no sink fails. \<open>feed\<close> hands such a plan to a
  sink, up to the first segment that the sink refuses.
\<close>

type_synonym segment = "ushort \<times> bool \<times> byte list"

definition collect :: "segment list poke" where
  "collect ctx addr ext buf = (0, ctx @ [(addr, ext, buf)])"

definition ihex_segments :: "(ushort \<Rightarrow> nat \<Rightarrow> bool) option \<Rightarrow> string \<Rightarrow> outcome \<times> segment list" where
  "ihex_segments is_external img = parse_ihex img [] is_external collect"

fun pour :: "'c poke \<Rightarrow> segment list \<Rightarrow> 'c \<Rightarrow> bool \<times> 'c" where
  "pour poke [] ctx = (True, ctx)"
| "pour poke ((addr, ext, buf) # segs) ctx =
     (case poke ctx addr ext buf of
        (rc, ctx') \<Rightarrow> if rc < 0 then (False, ctx') else pour poke segs ctx')"

definition feed :: "'c poke \<Rightarrow> outcome \<times> segment list \<Rightarrow> 'c \<Rightarrow> outcome \<times> 'c" where
  "feed poke plan ctx =
     (case pour poke (snd plan) ctx of
        (ok, ctx') \<Rightarrow> if ok then (fst plan, ctx') else (Return (- 1), ctx'))"

definition feed_step :: "'c poke \<Rightarrow> segment list step \<Rightarrow> 'c \<Rightarrow> 'c step" where
  "feed_step poke s ctx =
     (case s of
        Continue st segs \<Rightarrow>
          (case pour poke segs ctx of (ok, ctx') \<Rightarrow> if ok then Continue st ctx' else Stop (Return (- 1)) ctx')
      | Break st segs \<Rightarrow>
          (case pour poke segs ctx of (ok, ctx') \<Rightarrow> if ok then Break st ctx' else Stop (Return (- 1)) ctx')
      | Stop r segs \<Rightarrow>
          (case pour poke segs ctx of (ok, ctx') \<Rightarrow> if ok then Stop r ctx' else Stop (Return (- 1)) ctx'))"

section \<open>The writes of an EEPROM load as a plan\<close>

text \<open>
  A plan is a list of writes (opcode, address, bytes); \<open>run_writes\<close> issues them in order
  through \<^verbatim>\<open>ezusb_write\<close> and stops at the first negative status. \<open>eeprom_ops\<close> is the plan
  of \<^verbatim>\<open>ezusb_load_eeprom\<close> once the variant is known: the unbootable mark, the identity
  record, the frames of the segments with the reset frame, the config byte, the reserved
  byte and the type byte. The frames are those of the segments that \<^verbatim>\<open>eeprom_poke\<close> accepts
  (internal, at most 1023 bytes) up to the first one it refuses; the rest of the plan is
  there when the image was parsed to its end and no segment was refused.
\<close>

type_synonym write_op = "byte \<times> ushort \<times> byte list"

fun run_writes :: "int \<Rightarrow> write_op list \<Rightarrow> world \<Rightarrow> bool \<times> world" where
  "run_writes dev [] w = (True, w)"
| "run_writes dev ((opc, addr, buf) # ops) w =
     (case ezusb_write dev opc addr buf w of
        (status, w') \<Rightarrow> if status < 0 then (False, w') else run_writes dev ops w')"

definition op_request :: "int \<Rightarrow> write_op \<Rightarrow> int \<times> usbdevfs_ctrltransfer" where
  "op_request dev op = (case op of (opc, addr, buf) \<Rightarrow> (dev, write_request opc addr buf))"

definition short_op :: "write_op \<Rightarrow> bool" where
  "short_op op \<longleftrightarrow> length (snd (snd op)) \<le> 65535"

definition writes_post :: "int \<Rightarrow> write_op list \<Rightarrow> bool \<Rightarrow> usb_event list \<Rightarrow> bool" where
  "writes_post dev ops ok evs \<longleftrightarrow>
     map ev_request evs = take (length evs) (map (op_request dev) ops) \<and>
     length evs \<le> length ops \<and>
     list_all accepted (butlast evs) \<and>
     (if ok then length evs = length ops \<and> list_all accepted evs
      else evs \<noteq> [] \<and> ev_status (last evs) = - 1)"

definition valid_segment :: "segment \<Rightarrow> bool" where
  "valid_segment seg \<longleftrightarrow> \<not> fst (snd seg) \<and> length (snd (snd seg)) \<le> 1023"

fun eeprom_frames :: "byte \<Rightarrow> bool \<Rightarrow> ushort \<Rightarrow> segment list \<Rightarrow> write_op list" where
  "eeprom_frames req lst c [] = []"
| "eeprom_frames req lst c ((addr, ext, buf) # segs) =
     (req, c, segment_header lst addr (length buf)) # (req, c + 4, buf)
       # eeprom_frames req lst (c + 4 + of_nat (length buf)) segs"

definition framed_size :: "segment list \<Rightarrow> nat" where
  "framed_size segs = sum_list (map (\<lambda>seg. 4 + length (snd (snd seg))) segs)"

definition format_status :: "outcome \<Rightarrow> bool" where
  "format_status r \<longleftrightarrow> r \<in> {Return 0, Return (- 2), Return (- 3), Return (- 4), Undefined}"

definition config_ops :: "byte \<Rightarrow> string \<Rightarrow> variant \<Rightarrow> write_op list" where
  "config_ops req type v = (if type \<noteq> ''an21'' then [(req, 7, [of_int (config_v v)])] else [])"

definition reserved_ops :: "byte \<Rightarrow> string \<Rightarrow> write_op list" where
  "reserved_ops req type = (if type = ''fx'' then [(req, 8, [0])] else [])"

definition trailer_ops :: "byte \<Rightarrow> string \<Rightarrow> variant \<Rightarrow> write_op list" where
  "trailer_ops req type v = config_ops req type v @ reserved_ops req type @ [(req, 0, [first_byte v])]"

definition id_ops :: "byte \<Rightarrow> variant \<Rightarrow> int \<Rightarrow> int \<Rightarrow> write_op list" where
  "id_ops req v ww_config_vid ww_config_pid =
     (if resolve_id ww_config_vid (ww_vid_v v) \<noteq> 0 \<and> resolve_id ww_config_pid (ww_pid_v v) \<noteq> 0
      then [(req, 1, identity_record (resolve_id ww_config_vid (ww_vid_v v))
                                      (resolve_id ww_config_pid (ww_pid_v v)))]
      else [])"

definition image_complete :: "outcome \<times> segment list \<Rightarrow> bool" where
  "image_complete plan \<longleftrightarrow> fst plan = Return 0 \<and> list_all valid_segment (snd plan)"

definition image_ops :: "byte \<Rightarrow> string \<Rightarrow> variant \<Rightarrow> string option \<Rightarrow> write_op list" where
  "image_ops req type v image_opt =
     (case image_opt of
        None \<Rightarrow> trailer_ops req type v
      | Some img \<Rightarrow>
          (let plan = ihex_segments (Some (is_external_v v)) img
           in if image_complete plan
              then eeprom_frames req False (ee_addr_v v) (snd plan)
                   @ eeprom_frames req True (ee_addr_v v + of_nat (framed_size (snd plan)))
                       [(cpucs_addr_v v, False, [0])]
                   @ trailer_ops req type v
              else eeprom_frames req False (ee_addr_v v) (takeWhile valid_segment (snd plan))))"

definition image_status :: "variant \<Rightarrow> string option \<Rightarrow> outcome" where
  "image_status v image_opt =
     (case image_opt of
        None \<Rightarrow> Return 0
      | Some img \<Rightarrow>
          (let plan = ihex_segments (Some (is_external_v v)) img
           in if list_all valid_segment (snd plan) then fst plan else Return (- 1)))"

definition eeprom_ops :: "byte \<Rightarrow> string \<Rightarrow> variant \<Rightarrow> string option \<Rightarrow> int \<Rightarrow> int \<Rightarrow> write_op list" where
  "eeprom_ops req type v image_opt ww_config_vid ww_config_pid =
     (req, 0, [0]) # id_ops req v ww_config_vid ww_config_pid @ image_ops req type v image_opt"

definition plan_result :: "outcome \<Rightarrow> bool \<times> world \<Rightarrow> outcome \<times> world" where
  "plan_result r res = (if fst res then r else Return (- 1), snd res)"

section \<open>Observing the boot type byte\<close>

text \<open>
  The writes of a run are its requests of direction OUT (the probe of the EEPROM type is a
  read). A request touches the type byte, at offset 0, when it starts there or runs over
  the end of the 16-bit address space. \<open>eeprom_end\<close> is where the frames of an image end:
  the initial offset of the variant, then 4 bytes of header and the payload for every
  segment, then the 5 bytes of the reset frame; \<open>image_fits\<close> says that this is within
  the address space (and holds when no image is framed).
\<close>

definition is_write :: "usb_event \<Rightarrow> bool" where
  "is_write e \<longleftrightarrow> bRequestType (snd (ev_request e)) = 0x40"

definition eeprom_writes :: "world \<Rightarrow> world \<Rightarrow> usb_event list" where
  "eeprom_writes w w' = filter is_write (issued w w')"

definition touches_type_byte :: "usbdevfs_ctrltransfer \<Rightarrow> bool" where
  "touches_type_byte c \<longleftrightarrow> wValue c = 0 \<or> 65536 < unat (wValue c) + length (ctrl_data c)"

definition eeprom_end :: "variant \<Rightarrow> string \<Rightarrow> nat" where
  "eeprom_end v img =
     unat (ee_addr_v v) + framed_size (snd (ihex_segments (Some (is_external_v v)) img)) + 5"

definition image_fits :: "string option \<Rightarrow> string \<Rightarrow> int \<Rightarrow> world \<Rightarrow> bool" where
  "image_fits path type config w =
     (case path of
        None \<Rightarrow> True
      | Some p \<Rightarrow>
          (case (files w p, select_variant type True config) of
             (Some img, Some v) \<Rightarrow> eeprom_end v img \<le> 65536
           | _ \<Rightarrow> True))"

definition eeprom_opcode :: "bool \<Rightarrow> byte" where
  "eeprom_opcode large_eeprom = (if large_eeprom then RW_EEPROM_LARGE else RW_EEPROM)"

text \<open>A write of the plan that lies between offset 1 and a bound.\<close>

definition low_op :: "nat \<Rightarrow> write_op \<Rightarrow> bool" where
  "low_op bound op \<longleftrightarrow> 1 \<le> unat (fst (snd op)) \<and> unat (fst (snd op)) + length (snd (snd op)) \<le> bound"

text \<open>A device that accepts the first \<open>n\<close> requests and fails every later one with \<^verbatim>\<open>EIO\<close>.\<close>

definition failing_after :: "nat \<Rightarrow> usb_event list \<Rightarrow> int \<Rightarrow> usbdevfs_ctrltransfer \<Rightarrow> ioctl_result" where
  "failing_after n h d c = (if length h < n then Transferred (length (ctrl_data c)) [] else Failed 5)"

text \<open>A device that times out on the first \<open>n\<close> requests and accepts every later one.\<close>

definition timing_out :: "nat \<Rightarrow> usb_event list \<Rightarrow> int \<Rightarrow> usbdevfs_ctrltransfer \<Rightarrow> ioctl_result" where
  "timing_out n h d c = (if length h < n then Failed ETIMEDOUT else Transferred (length (ctrl_data c)) [])"

text \<open>
  The returns of \<^verbatim>\<open>ezusb_load_eeprom\<close> that come before the first write: with a path, the
  probe of the EEPROM is refused (\<^verbatim>\<open>(status != 1 || value != 1) && value != 0\<close>), the image
  cannot be opened, or the variant is not one of the four; without a path, the variant is
  neither \<^verbatim>\<open>fx2\<close> nor \<^verbatim>\<open>fx2lp\<close>.
\<close>

definition returns_before_mark :: "int \<Rightarrow> string option \<Rightarrow> string \<Rightarrow> byte \<Rightarrow> world \<Rightarrow> bool" where
  "returns_before_mark dev path type val0 w \<longleftrightarrow>
     (case path of
        None \<Rightarrow> type \<noteq> ''fx2'' \<and> type \<noteq> ''fx2lp''
      | Some p \<Rightarrow>
          (case ezusb_get_eeprom_type dev val0 w of
             (status, val, w1) \<Rightarrow> (status \<noteq> 1 \<or> val \<noteq> 1) \<and> val \<noteq> 0) \<or>
          files w p = None \<or>
          type \<notin> {''fx2'', ''fx2lp'', ''fx'', ''an21''})"

text \<open>A file system that holds one image, a data record of one byte and the end record.\<close>

definition fw_files :: "string \<Rightarrow> string option" where
  "fw_files p = (if p = ''fw.hex'' then Some '':0100000055AA\<newline>:00000001FF\<newline>'' else None)"

section \<open>The lines of an image\<close>

text \<open>
  The lines of a stream as \<^verbatim>\<open>fgets\<close> delivers them one after the other. A comment line
  starts with \<open>#\<close>. A data record is a line that the loop takes as a record of type 0: it
  starts with a colon, holds the header fields, its type field reads 0, its length field
  reads at most 255 (it is not negated) and the line is as long as that length requires.
\<close>

function ihex_lines :: "string \<Rightarrow> string list" where
  "ihex_lines img = (case fgets 512 img of None \<Rightarrow> [] | Some (line, rest) \<Rightarrow> line # ihex_lines rest)"
  by pat_completeness auto
termination
proof (relation "measure length")
  show "wf (measure length)" by simp
next
  fix img :: string and x2 :: "string \<times> string" and line rest :: string
  assume "fgets 512 img = Some x2" and "(line, rest) = x2"
  then have f: "fgets_chars 511 img = (line, rest)" and ne: "img \<noteq> []"
    by (auto simp: fgets_def split: if_splits)
  have "n \<noteq> 0 \<Longrightarrow> s \<noteq> [] \<Longrightarrow> length (snd (fgets_chars n s)) < length s" for n s
  proof (induction n s rule: fgets_chars.induct)
    case (1 n)
    then show ?case by simp
  next
    case (2 n c s)
    then show ?case
      by (cases s; cases "n - 1 = 0") (auto split: prod.splits)
  qed
  from this[of 511 img] f ne have "length rest < length img" by simp
  then show "(rest, img) \<in> measure length" by simp
qed

declare ihex_lines.simps [simp del]

definition comment_line :: "string \<Rightarrow> bool" where
  "comment_line line \<longleftrightarrow> hd line = CHR ''#''"

definition data_record :: "string \<Rightarrow> bool" where
  "data_record line \<longleftrightarrow>
     hd line = CHR '':'' \<and> 7 \<le> length line \<and>
     strtoul (field (strip_newline line) 7 9) mod 256 = 0 \<and>
     strtoul (field (strip_newline line) 1 3) \<le> 255 \<and>
     2 * strtoul (field (strip_newline line) 1 3) + 11 \<le> length (cstring (strip_newline line))"

text \<open>
  The fields of a data record, as the loop reads them from the line: the length, the offset
  and the bytes. \<open>image_records\<close> are the records of the lines of a stream that are not
  comments, each an offset with its bytes.
\<close>

definition record_length :: "string \<Rightarrow> nat" where
  "record_length line = strtoul (field (strip_newline line) 1 3)"

definition record_offset :: "string \<Rightarrow> nat" where
  "record_offset line = strtoul (field (strip_newline line) 3 7) mod 2 ^ 32"

definition record_data :: "string \<Rightarrow> byte list" where
  "record_data line = record_bytes (strip_newline line) (record_length line)"

definition image_records :: "string \<Rightarrow> (nat \<times> byte list) list" where
  "image_records img =
     map (\<lambda>l. (record_offset l, record_data l)) (filter (\<lambda>l. \<not> comment_line l) (ihex_lines img))"

text \<open>
  The segments that a list of records merges into. The records are appended to a buffer
  that starts at the offset of the first record. A record that meets a buffer with bytes in
  it, and that is not contiguous with the buffer or does not fit into its 1023 bytes with
  it, ends the segment and starts the next buffer at its own offset; what is buffered after
  the last record is the last segment. Each segment is classified by its address and its
  length (as internal, when there is no classifier).
\<close>

fun merge_records :: "ushort \<Rightarrow> byte list \<Rightarrow> (nat \<times> byte list) list \<Rightarrow> (ushort \<times> byte list) list" where
  "merge_records start buf [] = (if buf = [] then [] else [(start, buf)])"
| "merge_records start buf ((off, bs) # recs) =
     (if buf \<noteq> [] \<and> (off \<noteq> unat start + length buf \<or> length buf + length bs > 1023)
      then (start, buf) # merge_records (of_nat off) bs recs
      else merge_records start (buf @ bs) recs)"

definition record_segments :: "(nat \<times> byte list) list \<Rightarrow> (ushort \<times> byte list) list" where
  "record_segments recs =
     merge_records (case recs of [] \<Rightarrow> 0 | r # rs \<Rightarrow> of_nat (fst r)) [] recs"

definition classify :: "(ushort \<Rightarrow> nat \<Rightarrow> bool) option \<Rightarrow> (ushort \<times> byte list) list \<Rightarrow> segment list" where
  "classify is_external segs =
     map (\<lambda>s. (fst s, (case is_external of None \<Rightarrow> False | Some f \<Rightarrow> f (fst s) (length (snd s))), snd s)) segs"

definition image_segments :: "(ushort \<Rightarrow> nat \<Rightarrow> bool) option \<Rightarrow> string \<Rightarrow> segment list" where
  "image_segments is_external img = classify is_external (record_segments (image_records img))"

section \<open>The identity record and the cursor\<close>






text \<open>
  The cursor after \<open>k\<close> framed segments of a list: the start, moved by 4 bytes of header
  and the payload for each of them, in the 16-bit arithmetic of \<^verbatim>\<open>ee_addr\<close>.
\<close>

definition frame_cursor :: "ushort \<Rightarrow> segment list \<Rightarrow> nat \<Rightarrow> ushort" where
  "frame_cursor c segs k = c + of_nat (framed_size (take k segs))"

section \<open>Evaluating concrete runs\<close>

lemma upt_eval: "[0..<n] = (if n = 0 then [] else [0..<n - 1] @ [n - 1])"
  by (cases n) auto

lemmas parse_eval = parse_ihex_def parse_loop.simps fgets_def loop_body_def record_line_def
  accumulate_def flush_remaining_def flush_def record_bytes_def field_def cstring_def
  strip_newline_def strtoul_def isspace_def hex_digit_def ULONG_MAX_def Let_def upt_eval

lemmas usb_eval = ezusb_write_def ezusb_read_def ezusb_get_eeprom_type_def ctrl_msg_def
  ioctl_control_def USHRT_MAX_def USB_DIR_OUT_def USB_DIR_IN_def USB_TYPE_VENDOR_def
  USB_RECIP_DEVICE_def RW_EEPROM_def RW_EEPROM_LARGE_def RW_INTERNAL_def RW_MEMORY_def
  GET_EEPROM_SIZE_def world_of_def good_device_def dead_device_def failing_after_def
  timing_out_def

lemmas eeprom_eval = ezusb_load_eeprom_def open_image_def select_variant_def mark_unbootable_def
  write_ids_def write_image_def write_config_byte_def write_reserved_byte_def
  write_type_byte_def resolve_id_def identity_record_def eeprom_poke_def fx2_is_external_def
  fx2lp_is_external_def fx_is_external_def EINVAL_def EDOM_def

section \<open>Properties of the transport\<close>

lemma ezusb_write_short:
  assumes "length buf \<le> 65535"
  shows "ezusb_write dev opc addr buf w =
     (let r = usbfs w (trace w) dev (write_request opc addr buf)
      in (status_of r, w\<lparr>trace := trace w @ [(dev, write_request opc addr buf, r)],
                         errno := (case r of Transferred n bs \<Rightarrow> errno w | Failed e \<Rightarrow> e)\<rparr>))"
  using assms
  by (simp add: ezusb_write_def ctrl_msg_def ioctl_control_def write_request_def USHRT_MAX_def
      USB_DIR_OUT_def USB_TYPE_VENDOR_def USB_RECIP_DEVICE_def status_of_def Let_def
      split: ioctl_result.splits)

lemma device_answers_append:
  "device_answers device h (xs @ ys)
     = (device_answers device h xs \<and> device_answers device (h @ xs) ys)"
  by (induction xs arbitrary: h) auto

lemma follows_refl: "follows w w"
  by (simp add: follows_def issued_def)

lemma follows_trans:
  assumes "follows w w1" and "follows w1 w2"
  shows "follows w w2"
proof -
  have t1: "trace w1 = trace w @ issued w w1" and t2: "trace w2 = trace w1 @ issued w1 w2"
    using assms by (simp_all add: follows_def)
  have i: "issued w w2 = issued w w1 @ issued w1 w2"
    unfolding issued_def[of w w2] by (subst t2, subst t1) simp
  show ?thesis
    using assms t1 unfolding follows_def i
    by (simp add: device_answers_append)
qed

lemma follows_ioctl_control: "follows w (snd (snd (ioctl_control dev ctrl w)))"
  by (simp add: ioctl_control_def follows_def issued_def Let_def ev_result_def ev_request_def
      split: ioctl_result.splits)

lemma follows_ctrl_msg: "follows w (snd (snd (ctrl_msg dev rt rq val idx buf w)))"
  by (simp add: ctrl_msg_def follows_refl follows_ioctl_control)

lemma follows_ezusb_write: "follows w (snd (ezusb_write dev opc addr buf w))"
  using follows_ctrl_msg[where w = w and dev = dev and rq = opc and val = addr and idx = 0
      and buf = buf and rt = "USB_DIR_OUT OR USB_TYPE_VENDOR OR USB_RECIP_DEVICE"]
  by (auto simp: ezusb_write_def split: prod.splits)

lemma device_answers_good_device:
  "device_answers good_device h evs \<Longrightarrow> list_all accepted evs"
  by (induction evs arbitrary: h)
    (auto simp: accepted_def ev_status_def ev_result_def status_of_def good_device_def)

section \<open>The sink sees the segments of the image\<close>

lemma pour_collect: "pour collect segs acc = (True, acc @ segs)"
  by (induction segs arbitrary: acc) (auto simp: collect_def)

lemma pour_append:
  "pour poke (xs @ ys) ctx =
     (case pour poke xs ctx of (ok, ctx') \<Rightarrow> if ok then pour poke ys ctx' else (False, ctx'))"
  by (induction xs arbitrary: ctx) (auto split: prod.splits)

lemma flush_feed:
  "flush isx poke st ctx =
     (case flush isx collect st [] of
        (rc0, st', segs) \<Rightarrow> (case poke ctx (fst (hd segs)) (fst (snd (hd segs))) (snd (snd (hd segs))) of
                                (rc, ctx') \<Rightarrow> (rc, st', ctx')))"
  unfolding flush_def collect_def Let_def
  by (simp split: prod.splits option.splits)

lemma flush_collect:
  "flush isx collect st acc = (0, fst (snd (flush isx collect st [])), acc @ snd (snd (flush isx collect st [])))"
  unfolding flush_def collect_def Let_def
  by (simp split: prod.splits option.splits)

lemma flush_collect_single:
  "\<exists>seg. snd (snd (flush isx collect st [])) = [seg]"
  unfolding flush_def collect_def Let_def
  by (simp split: prod.splits option.splits)

lemma accumulate_feed:
  "accumulate isx poke buf off len st ctx = feed_step poke (accumulate isx collect buf off len st []) ctx"
proof -
  obtain st' seg where f: "flush isx collect st [] = (0, st', [seg])"
    using flush_collect[of isx st "[]"] flush_collect_single[of isx st]
    by (cases "flush isx collect st []") auto
  obtain a e d where seg: "seg = (a, e, d)" by (cases seg)
  obtain rc ctx' where p: "poke ctx a e d = (rc, ctx')" by (cases "poke ctx a e d")
  have g: "flush isx poke st ctx = (rc, st', ctx')"
    using f seg p by (simp add: flush_feed[of isx poke st ctx])
  show ?thesis
    unfolding accumulate_def f g feed_step_def
    by (simp add: seg p)
qed

lemma record_line_feed:
  "record_line isx poke buf st ctx = feed_step poke (record_line isx collect buf st []) ctx"
  unfolding record_line_def Let_def
  by (simp add: accumulate_feed[of isx poke] feed_step_def)

lemma loop_body_feed:
  "loop_body isx poke line st ctx = feed_step poke (loop_body isx collect line st []) ctx"
  unfolding loop_body_def
  by (simp add: record_line_feed[of isx poke] feed_step_def)

lemma flush_remaining_feed:
  "flush_remaining isx poke st ctx = feed poke (flush_remaining isx collect st []) ctx"
  unfolding flush_remaining_def feed_def flush_def collect_def Let_def
  by (simp split: prod.splits option.splits)

lemma feed_step_collect:
  "feed_step collect s acc =
     (case s of Continue st segs \<Rightarrow> Continue st (acc @ segs)
              | Break st segs \<Rightarrow> Break st (acc @ segs)
              | Stop r segs \<Rightarrow> Stop r (acc @ segs))"
  by (simp add: feed_step_def pour_collect split: step.splits)

lemma fgets_chars_shorter:
  "n \<noteq> 0 \<Longrightarrow> s \<noteq> [] \<Longrightarrow> length (snd (fgets_chars n s)) < length s"
proof (induction n s rule: fgets_chars.induct)
  case (1 n)
  then show ?case by simp
next
  case (2 n c s)
  then show ?case
    by (cases s; cases "n - 1 = 0") (auto split: prod.splits)
qed

lemma fgets_shorter:
  assumes "fgets 512 img = Some (line, rest)"
  shows "length rest < length img"
proof -
  from assms have f: "fgets_chars 511 img = (line, rest)" and ne: "img \<noteq> []"
    by (auto simp: fgets_def split: if_splits)
  from fgets_chars_shorter[of 511 img] f ne show ?thesis by simp
qed

lemma parse_loop_collect_acc:
  "parse_loop isx collect img st acc =
     (case parse_loop isx collect img st [] of (r, segs) \<Rightarrow> (r, acc @ segs))"
proof (induction "length img" arbitrary: img st acc rule: less_induct)
  case less
  show ?case
  proof (cases "fgets 512 img")
    case None
    then show ?thesis
      by (simp add: parse_loop.simps[of isx collect img] flush_remaining_feed[of isx collect st acc]
          feed_def pour_collect split: prod.splits)
  next
    case (Some lr)
    obtain line rest where lr: "lr = (line, rest)" by (cases lr)
    have sh: "length rest < length img" using Some lr fgets_shorter by simp
    show ?thesis
    proof (cases "loop_body isx collect line st []")
      case (Continue st' segs)
      then have b: "loop_body isx collect line st acc = Continue st' (acc @ segs)"
        by (simp add: loop_body_feed[of isx collect line st acc] feed_step_collect)
      have 1: "parse_loop isx collect rest st' (acc @ segs) =
              (case parse_loop isx collect rest st' [] of (r, s) \<Rightarrow> (r, (acc @ segs) @ s))"
        using less[OF sh] .
      have 2: "parse_loop isx collect rest st' segs =
              (case parse_loop isx collect rest st' [] of (r, s) \<Rightarrow> (r, segs @ s))"
        using less[OF sh] .
      have l: "parse_loop isx collect img st acc = parse_loop isx collect rest st' (acc @ segs)"
        using Some lr b by (subst parse_loop.simps) simp
      have r: "parse_loop isx collect img st [] = parse_loop isx collect rest st' segs"
        using Some lr Continue by (subst parse_loop.simps) simp
      show ?thesis unfolding l r 1 2 by (simp split: prod.splits)
    next
      case (Break st' segs)
      then have b: "loop_body isx collect line st acc = Break st' (acc @ segs)"
        by (simp add: loop_body_feed[of isx collect line st acc] feed_step_collect)
      have l: "parse_loop isx collect img st acc = flush_remaining isx collect st' (acc @ segs)"
        using Some lr b by (subst parse_loop.simps) simp
      have r: "parse_loop isx collect img st [] = flush_remaining isx collect st' segs"
        using Some lr Break by (subst parse_loop.simps) simp
      show ?thesis unfolding l r
        by (simp add: flush_remaining_feed[of isx collect st' "acc @ segs"]
            flush_remaining_feed[of isx collect st' "segs"]
            feed_def pour_collect split: prod.splits)
    next
      case (Stop r segs)
      then have b: "loop_body isx collect line st acc = Stop r (acc @ segs)"
        by (simp add: loop_body_feed[of isx collect line st acc] feed_step_collect)
      have l: "parse_loop isx collect img st acc = (r, acc @ segs)"
        using Some lr b by (subst parse_loop.simps) simp
      have r: "parse_loop isx collect img st [] = (r, segs)"
        using Some lr Stop by (subst parse_loop.simps) simp
      show ?thesis unfolding l r by simp
    qed
  qed
qed

lemma feed_Cons_plan:
  "feed poke (r, xs @ ys) ctx =
     (case pour poke xs ctx of (ok, ctx') \<Rightarrow> if ok then feed poke (r, ys) ctx' else (Return (- 1), ctx'))"
  by (simp add: feed_def pour_append split: prod.splits)

lemma parse_loop_feed:
  "parse_loop isx poke img st ctx = feed poke (parse_loop isx collect img st []) ctx"
proof (induction "length img" arbitrary: img st ctx rule: less_induct)
  case less
  show ?case
  proof (cases "fgets 512 img")
    case None
    then show ?thesis
      by (simp add: parse_loop.simps[of isx _ img] flush_remaining_feed[of isx poke st ctx])
  next
    case (Some lr)
    obtain line rest where lr: "lr = (line, rest)" by (cases lr)
    have sh: "length rest < length img" using Some lr fgets_shorter by simp
    have body: "loop_body isx poke line st ctx = feed_step poke (loop_body isx collect line st []) ctx"
      by (rule loop_body_feed)
    show ?thesis
    proof (cases "loop_body isx collect line st []")
      case (Continue st' segs)
      have r: "parse_loop isx collect img st [] = parse_loop isx collect rest st' segs"
        using Some lr Continue by (subst parse_loop.simps) simp
      obtain r0 segs0 where c0: "parse_loop isx collect rest st' [] = (r0, segs0)"
        by (cases "parse_loop isx collect rest st' []")
      have r': "parse_loop isx collect img st [] = (r0, segs @ segs0)"
        unfolding r by (subst parse_loop_collect_acc) (simp add: c0)
      obtain ok ctx' where po: "pour poke segs ctx = (ok, ctx')" by (cases "pour poke segs ctx")
      show ?thesis
      proof (cases ok)
        case True
        have b: "loop_body isx poke line st ctx = Continue st' ctx'"
          using body Continue po True by (simp add: feed_step_def)
        have l: "parse_loop isx poke img st ctx = parse_loop isx poke rest st' ctx'"
          using Some lr b by (subst parse_loop.simps) simp
        show ?thesis
          unfolding l r' less[OF sh] c0 using po True by (simp add: feed_Cons_plan)
      next
        case False
        have b: "loop_body isx poke line st ctx = Stop (Return (- 1)) ctx'"
          using body Continue po False by (simp add: feed_step_def)
        have l: "parse_loop isx poke img st ctx = (Return (- 1), ctx')"
          using Some lr b by (subst parse_loop.simps) simp
        show ?thesis
          unfolding l r' using po False by (simp add: feed_Cons_plan)
      qed
    next
      case (Break st' segs)
      have r: "parse_loop isx collect img st [] = flush_remaining isx collect st' segs"
        using Some lr Break by (subst parse_loop.simps) simp
      obtain r0 segs0 where c0: "flush_remaining isx collect st' [] = (r0, segs0)"
        by (cases "flush_remaining isx collect st' []")
      have r': "parse_loop isx collect img st [] = (r0, segs @ segs0)"
        unfolding r
        by (simp add: flush_remaining_feed[of isx collect st' segs] c0 feed_def pour_collect)
      obtain ok ctx' where po: "pour poke segs ctx = (ok, ctx')" by (cases "pour poke segs ctx")
      show ?thesis
      proof (cases ok)
        case True
        have b: "loop_body isx poke line st ctx = Break st' ctx'"
          using body Break po True by (simp add: feed_step_def)
        have l: "parse_loop isx poke img st ctx = flush_remaining isx poke st' ctx'"
          using Some lr b by (subst parse_loop.simps) simp
        show ?thesis
          unfolding l r' using po True
          by (simp add: feed_Cons_plan flush_remaining_feed[of isx poke st' ctx'] c0)
      next
        case False
        have b: "loop_body isx poke line st ctx = Stop (Return (- 1)) ctx'"
          using body Break po False by (simp add: feed_step_def)
        have l: "parse_loop isx poke img st ctx = (Return (- 1), ctx')"
          using Some lr b by (subst parse_loop.simps) simp
        show ?thesis
          unfolding l r' using po False by (simp add: feed_Cons_plan)
      qed
    next
      case (Stop r0 segs)
      have r': "parse_loop isx collect img st [] = (r0, segs)"
        using Some lr Stop by (subst parse_loop.simps) simp
      obtain ok ctx' where po: "pour poke segs ctx = (ok, ctx')" by (cases "pour poke segs ctx")
      have b: "loop_body isx poke line st ctx = (if ok then Stop r0 ctx' else Stop (Return (- 1)) ctx')"
        using body Stop po by (simp add: feed_step_def)
      have l: "parse_loop isx poke img st ctx = (if ok then (r0, ctx') else (Return (- 1), ctx'))"
        using Some lr b by (subst parse_loop.simps) simp
      show ?thesis
        unfolding l r' using po by (simp add: feed_def)
    qed
  qed
qed

lemma parse_ihex_feed:
  "parse_ihex img ctx isx poke = feed poke (ihex_segments isx img) ctx"
  unfolding parse_ihex_def ihex_segments_def by (rule parse_loop_feed)

section \<open>Framing a segment for the EEPROM\<close>

lemma header_bytes:
  "[of_nat (len div 256) OR (if l then 0x80 else 0), of_nat len, ucast (drop_bit 8 addr), ucast addr]
     = segment_header l (addr :: ushort) len"
proof -
  have a: "(of_nat len :: byte) = of_nat (len mod 256)"
    by (simp add: word_unat_eq_iff unat_of_nat) 
  have b: "(ucast addr :: byte) = of_nat (unat addr mod 256)"
    by (simp add: word_unat_eq_iff unat_of_nat unsigned_ucast_eq take_bit_eq_mod)
  have c: "(ucast (drop_bit 8 addr) :: byte) = of_nat (unat addr div 256)"
    by (simp add: word_unat_eq_iff unat_of_nat unsigned_ucast_eq take_bit_eq_mod unat_drop_bit_eq drop_bit_eq_div unat_div_distrib)
  show ?thesis unfolding segment_header_def using a b c by simp
qed




section \<open>The retries of a RAM write\<close>








section \<open>An EEPROM load runs its plan\<close>

lemma run_writes_append:
  "run_writes dev (xs @ ys) w =
     (case run_writes dev xs w of (ok, w') \<Rightarrow> if ok then run_writes dev ys w' else (False, w'))"
  by (induction xs arbitrary: w) (auto split: prod.splits)

lemma writes_post_Cons:
  assumes "accepted e" and "ev_request e = op_request dev op" and "writes_post dev ops ok evs"
  shows "writes_post dev (op # ops) ok (e # evs)"
  using assms unfolding writes_post_def
  by (cases "evs = []") (auto split: if_splits)

lemma run_writes_trace:
  assumes "list_all short_op ops"
  shows "case run_writes dev ops w of (ok, w') \<Rightarrow>
     trace w' = trace w @ issued w w' \<and> files w' = files w \<and> usbfs w' = usbfs w \<and>
     verbose w' = verbose w \<and> writes_post dev ops ok (issued w w')"
  using assms
proof (induction ops arbitrary: w)
  case Nil
  then show ?case by (simp add: issued_def writes_post_def)
next
  case (Cons op ops)
  obtain opc addr buf where op: "op = (opc, addr, buf)" by (cases op)
  have sh: "length buf \<le> 65535" using Cons.prems op by (simp add: short_op_def)
  define req where "req = write_request opc addr buf"
  define r where "r = usbfs w (trace w) dev req"
  define w1 where "w1 = w\<lparr>trace := trace w @ [(dev, req, r)],
                errno := (case r of Transferred n bs \<Rightarrow> errno w | Failed e \<Rightarrow> e)\<rparr>"
  have wr: "ezusb_write dev opc addr buf w = (status_of r, w1)"
    by (simp add: ezusb_write_short[OF sh] Let_def w1_def r_def req_def)
  have tr1: "trace w1 = trace w @ [(dev, req, r)]" by (simp add: w1_def)
  have same: "files w1 = files w" "usbfs w1 = usbfs w" "verbose w1 = verbose w" by (simp_all add: w1_def)
  let ?e = "(dev, req, r)"
  have rq: "ev_request ?e = op_request dev op" by (simp add: ev_request_def op_request_def op req_def)
  show ?case
  proof (cases "status_of r < 0")
    case True
    then have st: "status_of r = - 1" by (cases r) (simp_all add: status_of_def)
    have "run_writes dev (op # ops) w = (False, w1)" using True wr op by simp
    moreover have "issued w w1 = [?e]" by (simp add: issued_def tr1)
    moreover have "writes_post dev (op # ops) False [?e]"
      using rq st by (simp add: writes_post_def ev_status_def)
    ultimately show ?thesis using tr1 same by simp
  next
    case False
    have step: "run_writes dev (op # ops) w = run_writes dev ops w1" using False wr op by simp
    obtain ok w' where res: "run_writes dev ops w1 = (ok, w')" by (cases "run_writes dev ops w1")
    have IH: "trace w' = trace w1 @ issued w1 w' \<and> files w' = files w1 \<and> usbfs w' = usbfs w1 \<and>
       verbose w' = verbose w1 \<and> writes_post dev ops ok (issued w1 w')"
      using Cons.IH[of w1] Cons.prems unfolding res by simp
    from IH have tr: "trace w' = trace w @ ?e # issued w1 w'" by (simp add: tr1)
    have iss: "issued w w' = ?e # issued w1 w'"
      unfolding issued_def[of w] by (subst tr) simp
    have acc: "accepted ?e" using False by (simp add: accepted_def ev_status_def)
    have "writes_post dev (op # ops) ok (?e # issued w1 w')"
      using writes_post_Cons[OF acc rq] IH by simp
    then show ?thesis unfolding step res iss prod.case using tr IH same by simp
  qed
qed

lemma ezusb_write_status:
  "fst (ezusb_write dev opc addr buf w) < 0 \<longleftrightarrow> fst (ezusb_write dev opc addr buf w) = - 1 \<or> 65535 < length buf"
  by (auto simp: ezusb_write_def ctrl_msg_def ioctl_control_def USHRT_MAX_def EINVAL_def Let_def
      split: ioctl_result.splits prod.splits)

lemma eeprom_poke_run_writes:
  assumes "valid_segment (addr, ext, buf)"
  shows "eeprom_poke (ctx, w) addr ext buf =
     (case run_writes (device_e ctx)
             (eeprom_frames (eeprom_request ctx) (last_e ctx) (ee_addr ctx) [(addr, ext, buf)]) w of
        (ok, w') \<Rightarrow>
          if ok then (0, (ctx\<lparr>ee_addr := ee_addr ctx + 4 + of_nat (length buf)\<rparr>, w'))
          else (- 1, (ctx, w')))"
proof -
  have len: "length buf \<le> 65535" and v: "\<not> ext" "\<not> 1023 < length buf"
    using assms by (auto simp: valid_segment_def)
  have hlen: "length (segment_header (last_e ctx) addr (length buf)) \<le> 65535"
    by (simp add: segment_header_def)
  show ?thesis
    using v unfolding eeprom_poke_def header_bytes
    by (simp add: ezusb_write_short[OF len] ezusb_write_short[OF hlen] Let_def status_of_def
        split: ioctl_result.splits)
qed

lemma eeprom_poke_invalid:
  assumes "\<not> valid_segment (addr, ext, buf)"
  shows "fst (eeprom_poke (ctx, w) addr ext buf) < 0 \<and> snd (eeprom_poke (ctx, w) addr ext buf) = (ctx, w)"
  using assms by (auto simp: valid_segment_def eeprom_poke_def EINVAL_def EDOM_def)

lemma pour_eeprom_poke:
  "\<exists>c'. pour eeprom_poke segs (ctx, w) =
     (case run_writes (device_e ctx)
             (eeprom_frames (eeprom_request ctx) (last_e ctx) (ee_addr ctx) (takeWhile valid_segment segs)) w of
        (ok, w') \<Rightarrow> (ok \<and> list_all valid_segment segs, (ctx\<lparr>ee_addr := c'\<rparr>, w'))) \<and>
     (fst (pour eeprom_poke segs (ctx, w)) \<longrightarrow> c' = ee_addr ctx + of_nat (framed_size segs))"
proof (induction segs arbitrary: ctx w)
  case Nil
  show ?case by (rule exI[of _ "ee_addr ctx"]) (simp add: framed_size_def)
next
  case (Cons seg segs)
  obtain addr ext buf where seg: "seg = (addr, ext, buf)" by (cases seg) auto
  show ?case
  proof (cases "valid_segment seg")
    case False
    then show ?thesis
      using eeprom_poke_invalid[of addr ext buf ctx w] seg
      by (intro exI[of _ "ee_addr ctx"]) (auto split: prod.splits)
  next
    case True
    let ?f1 = "eeprom_frames (eeprom_request ctx) (last_e ctx) (ee_addr ctx) [(addr, ext, buf)]"
    let ?ctx1 = "ctx\<lparr>ee_addr := ee_addr ctx + 4 + of_nat (length buf)\<rparr>"
    obtain ok1 w1 where r1: "run_writes (device_e ctx) ?f1 w = (ok1, w1)"
      by (cases "run_writes (device_e ctx) ?f1 w")
    have ep: "eeprom_poke (ctx, w) addr ext buf = (if ok1 then (0, (?ctx1, w1)) else (- 1, (ctx, w1)))"
      using eeprom_poke_run_writes[of addr ext buf ctx w] True seg r1 by simp
    have fr: "eeprom_frames (eeprom_request ctx) (last_e ctx) (ee_addr ctx) (takeWhile valid_segment (seg # segs))
        = ?f1 @ eeprom_frames (eeprom_request ctx) (last_e ctx) (ee_addr ?ctx1) (takeWhile valid_segment segs)"
      using True seg by simp
    show ?thesis
    proof (cases ok1)
      case False
      then show ?thesis
        using ep r1 seg unfolding fr run_writes_append
        by (intro exI[of _ "ee_addr ctx"]) simp
    next
      case ok: True
      obtain c' where IH: "pour eeprom_poke segs (?ctx1, w1) =
         (case run_writes (device_e ?ctx1)
             (eeprom_frames (eeprom_request ?ctx1) (last_e ?ctx1) (ee_addr ?ctx1) (takeWhile valid_segment segs)) w1 of
           (ok, w') \<Rightarrow> (ok \<and> list_all valid_segment segs, (?ctx1\<lparr>ee_addr := c'\<rparr>, w')))"
        and IH2: "fst (pour eeprom_poke segs (?ctx1, w1)) \<longrightarrow> c' = ee_addr ?ctx1 + of_nat (framed_size segs)"
        using Cons.IH[of ?ctx1 w1] by blast
      have p: "pour eeprom_poke (seg # segs) (ctx, w) = pour eeprom_poke segs (?ctx1, w1)"
        using ep ok seg by simp
      show ?thesis
        unfolding p fr run_writes_append r1
        using ok True IH IH2 seg
        by (intro exI[of _ c']) (auto simp: framed_size_def split: prod.splits)
    qed
  qed
qed

lemma flush_collect_rc: "fst (flush isx collect st acc) = 0"
  by (simp add: flush_def collect_def Let_def split: option.splits)

lemma accumulate_collect_status:
  "accumulate isx collect buf off len st acc = Stop r acc' \<Longrightarrow> r = Undefined"
  unfolding accumulate_def
  using flush_collect_rc[of isx st acc]
  by (cases "flush isx collect st acc") (auto split: if_splits)

lemma record_line_collect_status:
  "record_line isx collect buf st acc = Stop r acc' \<Longrightarrow> format_status r \<and> r \<noteq> Return 0"
  unfolding record_line_def Let_def
  by (auto simp: format_status_def dest!: accumulate_collect_status split: if_splits)

lemma loop_body_collect_status:
  "loop_body isx collect line st acc = Stop r acc' \<Longrightarrow> format_status r \<and> r \<noteq> Return 0"
  unfolding loop_body_def
  by (auto simp: format_status_def dest!: record_line_collect_status split: if_splits)

lemma flush_remaining_collect_status:
  "fst (flush_remaining isx collect st acc) = Return 0"
  unfolding flush_remaining_def using flush_collect_rc[of isx st acc]
  by (auto split: prod.splits)

lemma parse_loop_collect_status:
  "format_status (fst (parse_loop isx collect img st acc))"
proof (induction "length img" arbitrary: img st acc rule: less_induct)
  case less
  show ?case
  proof (cases "fgets 512 img")
    case None
    then show ?thesis
      by (simp add: parse_loop.simps[of isx collect img] flush_remaining_collect_status format_status_def)
  next
    case (Some lr)
    obtain line rest where lr: "lr = (line, rest)" by (cases lr)
    have sh: "length rest < length img" using Some lr fgets_shorter by simp
    show ?thesis
    proof (cases "loop_body isx collect line st acc")
      case (Continue st' acc')
      have "parse_loop isx collect img st acc = parse_loop isx collect rest st' acc'"
        using Some lr Continue by (subst parse_loop.simps) simp
      then show ?thesis using less[OF sh] by simp
    next
      case (Break st' acc')
      have "parse_loop isx collect img st acc = flush_remaining isx collect st' acc'"
        using Some lr Break by (subst parse_loop.simps) simp
      then show ?thesis by (simp add: flush_remaining_collect_status format_status_def)
    next
      case (Stop r acc')
      have "parse_loop isx collect img st acc = (r, acc')"
        using Some lr Stop by (subst parse_loop.simps) simp
      then show ?thesis using loop_body_collect_status[OF Stop] by simp
    qed
  qed
qed

lemma ihex_segments_status: "format_status (fst (ihex_segments isx img))"
  unfolding ihex_segments_def parse_ihex_def by (rule parse_loop_collect_status)

lemma stage_write:
  assumes "length buf \<le> 65535"
    and "\<And>w'. g w' = plan_result r (run_writes dev ops w')"
  shows "(case ezusb_write dev opc addr buf w of
            (status, w') \<Rightarrow> if status < 0 then (Return status, w') else g w')
         = plan_result r (run_writes dev ((opc, addr, buf) # ops) w)"
  using assms(1) ezusb_write_status[of dev opc addr buf w]
  by (auto simp: assms(2) plan_result_def split: prod.splits)

lemma write_type_byte_plan:
  "write_type_byte dev req v w = plan_result (Return 0) (run_writes dev [(req, 0, [first_byte v])] w)"
  unfolding write_type_byte_def
  using stage_write[of "[first_byte v]" "\<lambda>w'. (Return 0, w')" "Return 0" dev "[]" req 0 w]
  by (simp add: plan_result_def)

lemma write_reserved_byte_plan:
  "write_reserved_byte dev req type v w
     = plan_result (Return 0) (run_writes dev (reserved_ops req type @ [(req, 0, [first_byte v])]) w)"
  unfolding write_reserved_byte_def reserved_ops_def
  using stage_write[of "[0]" "write_type_byte dev req v" "Return 0" dev "[(req, 0, [first_byte v])]" req 8 w]
  by (simp add: write_type_byte_plan)

lemma write_config_byte_plan:
  "write_config_byte dev req type v w = plan_result (Return 0) (run_writes dev (trailer_ops req type v) w)"
  unfolding write_config_byte_def trailer_ops_def config_ops_def
  using stage_write[of "[of_int (config_v v)]" "write_reserved_byte dev req type v" "Return 0" dev
      "reserved_ops req type @ [(req, 0, [first_byte v])]" req 7 w]
  by (simp add: write_reserved_byte_plan)

lemma write_image_plan:
  "write_image dev req type v image_opt w
     = plan_result (image_status v image_opt) (run_writes dev (image_ops req type v image_opt) w)"
proof (cases image_opt)
  case None
  then show ?thesis
    by (simp add: write_image_def image_status_def image_ops_def write_config_byte_plan)
next
  case (Some img)
  define ctx0 where "ctx0 = \<lparr>device_e = dev, ee_addr = ee_addr_v v, last_e = False, eeprom_request = req\<rparr>"
  obtain status segs where plan: "ihex_segments (Some (is_external_v v)) img = (status, segs)"
    by (cases "ihex_segments (Some (is_external_v v)) img")
  have fs: "format_status status" using ihex_segments_status[of "Some (is_external_v v)" img] plan by simp
  let ?good = "takeWhile valid_segment segs"
  obtain okw w1 where rw: "run_writes dev (eeprom_frames req False (ee_addr_v v) ?good) w = (okw, w1)"
    by (cases "run_writes dev (eeprom_frames req False (ee_addr_v v) ?good) w")
  obtain c' where po: "pour eeprom_poke segs (ctx0, w) = (okw \<and> list_all valid_segment segs, (ctx0\<lparr>ee_addr := c'\<rparr>, w1))"
    and c': "okw \<and> list_all valid_segment segs \<longrightarrow> c' = ee_addr_v v + of_nat (framed_size segs)"
    using pour_eeprom_poke[of segs ctx0 w] rw by (auto simp: ctx0_def)
  have parse: "parse_ihex img (ctx0, w) (Some (is_external_v v)) eeprom_poke
      = (if okw \<and> list_all valid_segment segs then status else Return (- 1), (ctx0\<lparr>ee_addr := c'\<rparr>, w1))"
    by (simp add: parse_ihex_feed plan feed_def po)
  have wi: "write_image dev req type v image_opt w =
      (case parse_ihex img (ctx0, w) (Some (is_external_v v)) eeprom_poke of
             (Undefined, cw) \<Rightarrow> (Undefined, snd cw)
           | (Return status, cw) \<Rightarrow>
               if status < 0 then (Return status, snd cw)
               else (case eeprom_poke (fst cw\<lparr>last_e := True\<rparr>, snd cw) (cpucs_addr_v v) False [0] of
                       (status, cw') \<Rightarrow>
                         if status < 0 then (Return status, snd cw')
                         else write_config_byte dev req type v (snd cw')))"
    by (simp add: write_image_def Some ctx0_def)
  show ?thesis
  proof (cases "okw \<and> list_all valid_segment segs \<and> status = Return 0")
    case True
    then have all: "?good = segs" by (simp add: takeWhile_eq_all_conv list_all_iff)
    have comp: "image_complete (status, segs)" using True by (simp add: image_complete_def)
    let ?ctx1 = "ctx0\<lparr>ee_addr := c', last_e := True\<rparr>"
    let ?reset = "eeprom_frames req True (ee_addr_v v + of_nat (framed_size segs)) [(cpucs_addr_v v, False, [0])]"
    have vr: "valid_segment (cpucs_addr_v v, False, [0])" by (simp add: valid_segment_def)
    have ep: "eeprom_poke (?ctx1, w1) (cpucs_addr_v v) False [0] =
       (case run_writes dev ?reset w1 of
          (ok, w') \<Rightarrow> if ok then (0, (?ctx1\<lparr>ee_addr := ee_addr ?ctx1 + 4 + of_nat (length [0::byte])\<rparr>, w'))
                      else (- 1, (?ctx1, w')))"
      using eeprom_poke_run_writes[OF vr, of ?ctx1 w1] True c' by (simp add: ctx0_def)
    have "write_image dev req type v image_opt w =
       (case run_writes dev ?reset w1 of
          (ok, w') \<Rightarrow> if ok then plan_result (Return 0) (run_writes dev (trailer_ops req type v) w')
                      else (Return (- 1), w'))"
      unfolding wi parse using True ep
      by (simp add: write_config_byte_plan split: prod.splits)
    also have "\<dots> = plan_result (Return 0)
        (run_writes dev (eeprom_frames req False (ee_addr_v v) segs @ ?reset @ trailer_ops req type v) w)"
      using rw True all unfolding run_writes_append
      by (simp add: plan_result_def split: prod.splits)
    finally show ?thesis
      using comp plan Some True
      by (simp add: image_ops_def image_status_def)
  next
    case False
    have lhs: "write_image dev req type v image_opt w =
        (if okw \<and> list_all valid_segment segs then status else Return (- 1), w1)"
      unfolding wi parse using False fs
      by (auto simp: format_status_def)
    show ?thesis
    proof (cases "image_complete (status, segs)")
      case True
      then have nok: "\<not> okw" and all: "?good = segs"
        using False by (auto simp: image_complete_def takeWhile_eq_all_conv list_all_iff)
      have ops: "image_ops req type v image_opt = eeprom_frames req False (ee_addr_v v) segs
           @ (eeprom_frames req True (ee_addr_v v + of_nat (framed_size segs)) [(cpucs_addr_v v, False, [0])]
              @ trailer_ops req type v)"
        using True Some plan by (simp add: image_ops_def)
      have "run_writes dev (image_ops req type v image_opt) w = (False, w1)"
        unfolding ops run_writes_append using rw nok all by simp
      then show ?thesis using lhs nok by (simp add: plan_result_def)
    next
      case nc: False
      have ops: "image_ops req type v image_opt = eeprom_frames req False (ee_addr_v v) ?good"
        using nc Some plan by (simp add: image_ops_def)
      have st: "image_status v image_opt = (if list_all valid_segment segs then status else Return (- 1))"
        using Some plan by (simp add: image_status_def)
      show ?thesis unfolding lhs ops st rw by (simp add: plan_result_def)
    qed
  qed
qed

lemma write_ids_plan:
  "write_ids dev req type v image_opt ww_config_vid ww_config_pid w
     = plan_result (image_status v image_opt)
         (run_writes dev (id_ops req v ww_config_vid ww_config_pid @ image_ops req type v image_opt) w)"
  unfolding write_ids_def id_ops_def Let_def
  using stage_write[of "identity_record (resolve_id ww_config_vid (ww_vid_v v)) (resolve_id ww_config_pid (ww_pid_v v))"
      "write_image dev req type v image_opt" "image_status v image_opt" dev "image_ops req type v image_opt" req 1 w]
  by (simp add: write_image_plan identity_record_def)

lemma mark_unbootable_plan:
  "mark_unbootable dev req type v image_opt ww_config_vid ww_config_pid w
     = plan_result (image_status v image_opt)
         (run_writes dev (eeprom_ops req type v image_opt ww_config_vid ww_config_pid) w)"
  unfolding mark_unbootable_def eeprom_ops_def
  using stage_write[of "[0x00]" "write_ids dev req type v image_opt ww_config_vid ww_config_pid"
      "image_status v image_opt" dev
      "id_ops req v ww_config_vid ww_config_pid @ image_ops req type v image_opt" req 0 w]
  by (simp add: write_ids_plan)

lemma load_eeprom_plan:
  "ezusb_load_eeprom dev path type config large_eeprom ww_config_vid ww_config_pid val0 w =
     (case open_image dev path val0 w of
        (Inl status, w1) \<Rightarrow> (Return status, w1)
      | (Inr image_opt, w1) \<Rightarrow>
          (case select_variant type (path \<noteq> None) config of
             None \<Rightarrow> (Return (- 1), w1)
           | Some v \<Rightarrow>
               plan_result (image_status v image_opt)
                 (run_writes dev
                    (eeprom_ops (if large_eeprom then RW_EEPROM_LARGE else RW_EEPROM) type v image_opt
                       ww_config_vid ww_config_pid) w1)))"
  unfolding ezusb_load_eeprom_def
  by (simp add: mark_unbootable_plan split: prod.splits sum.splits option.splits)

section \<open>The plan and the type byte\<close>

lemma list_all_takeWhile: "list_all P (takeWhile P xs)"
  by (induction xs) auto

lemma eeprom_frames_short:
  "list_all valid_segment segs \<Longrightarrow> list_all short_op (eeprom_frames req lst c segs)"
  by (induction segs arbitrary: c)
     (auto simp: valid_segment_def short_op_def segment_header_def)

lemma eeprom_frames_append:
  "eeprom_frames req lst c (xs @ ys) =
     eeprom_frames req lst c xs @ eeprom_frames req lst (c + of_nat (framed_size xs)) ys"
  by (induction xs arbitrary: c) (auto simp: framed_size_def algebra_simps)

lemma eeprom_frames_low:
  assumes "1 \<le> unat c" and "unat c + framed_size segs < 65536"
  shows "list_all (low_op (unat c + framed_size segs)) (eeprom_frames req lst c segs)"
  using assms
proof (induction segs arbitrary: c)
  case Nil
  then show ?case by simp
next
  case (Cons seg segs)
  obtain addr ext buf where seg: "seg = (addr, ext, buf)" by (cases seg) auto
  have fs: "framed_size (seg # segs) = 4 + length buf + framed_size segs"
    by (simp add: framed_size_def seg)
  have b: "unat c + 4 + length buf + framed_size segs < 65536" using Cons.prems fs by simp
  have c4: "unat (c + 4) = unat c + 4"
    using b by (simp add: unat_word_ariths)
  have cn: "unat (c + 4 + of_nat (length buf)) = unat c + 4 + length buf"
    using b by (simp add: unat_word_ariths unat_of_nat)
  have IH: "list_all (low_op (unat c + (4 + length buf + framed_size segs)))
      (eeprom_frames req lst (c + 4 + of_nat (length buf)) segs)"
    using Cons.IH[of "c + 4 + of_nat (length buf)"] Cons.prems(1) b cn by (simp add: add.assoc)
  have h: "low_op (unat c + (4 + length buf + framed_size segs)) (req, c, segment_header lst addr (length buf))"
    using Cons.prems(1) by (simp add: low_op_def segment_header_def)
  have p: "low_op (unat c + (4 + length buf + framed_size segs)) (req, c + 4, buf)"
    by (simp add: low_op_def c4)
  show ?case
    unfolding fs unfolding seg eeprom_frames.simps using h p IH by simp
qed

lemma low_op_mono: "low_op a op \<Longrightarrow> a \<le> b \<Longrightarrow> low_op b op"
  by (simp add: low_op_def)

lemma select_variant_facts:
  assumes "select_variant type hp config = Some v"
  shows "first_byte v \<in> {0xC0, 0xC2, 0xB6, 0xB2}" and "7 \<le> unat (ee_addr_v v)" and "unat (ee_addr_v v) \<le> 9"
  using assms by (auto simp: select_variant_def split: if_splits)

lemma framed_size_takeWhile: "framed_size (takeWhile P segs) \<le> framed_size segs"
  by (induction segs) (auto simp: framed_size_def)

lemma image_status_complete:
  "image_status v (Some img) = Return 0 \<longleftrightarrow> image_complete (ihex_segments (Some (is_external_v v)) img)"
  by (auto simp: image_status_def image_complete_def Let_def)

lemma trailer_ops_low:
  "list_all (low_op 65536) (config_ops req type v @ reserved_ops req type)"
  by (simp add: config_ops_def reserved_ops_def low_op_def)

lemma id_ops_low: "list_all (low_op 65536) (id_ops req v vid pid)"
  by (simp add: id_ops_def low_op_def identity_record_def)

lemma reset_frame_low:
  assumes "unat c + 5 \<le> 65536" and "1 \<le> unat c"
  shows "list_all (low_op 65536) (eeprom_frames req True c [(a, False, [0])])"
proof -
  have "unat (c + 4) = unat c + 4" using assms by (simp add: unat_word_ariths)
  then show ?thesis using assms by (simp add: low_op_def segment_header_def)
qed

lemma image_ops_shape:
  assumes "select_variant type hp config = Some v"
  shows "\<exists>middle. image_ops req type v image_opt =
            middle @ (if image_status v image_opt = Return 0 then [(req, 0, [first_byte v])] else []) \<and>
          list_all short_op (image_ops req type v image_opt) \<and>
          ((case image_opt of None \<Rightarrow> True | Some img \<Rightarrow> eeprom_end v img \<le> 65536)
             \<longrightarrow> list_all (low_op 65536) middle)"
proof (cases image_opt)
  case None
  show ?thesis
    by (rule exI[of _ "config_ops req type v @ reserved_ops req type"])
       (simp add: None image_ops_def image_status_def trailer_ops_def
          config_ops_def reserved_ops_def short_op_def low_op_def)
next
  case (Some img)
  obtain status segs where plan: "ihex_segments (Some (is_external_v v)) img = (status, segs)"
    by (cases "ihex_segments (Some (is_external_v v)) img")
  have c7: "1 \<le> unat (ee_addr_v v)" "unat (ee_addr_v v) \<le> 9"
    using select_variant_facts(2,3)[OF assms] by simp_all
  have tshort: "list_all short_op (trailer_ops req type v)"
    by (simp add: trailer_ops_def config_ops_def reserved_ops_def short_op_def)
  show ?thesis
  proof (cases "image_complete (status, segs)")
    case True
    then have allv: "list_all valid_segment segs" and st: "status = Return 0"
      by (simp_all add: image_complete_def)
    let ?c = "ee_addr_v v + of_nat (framed_size segs)"
    let ?frames = "eeprom_frames req False (ee_addr_v v) segs"
    let ?reset = "eeprom_frames req True ?c [(cpucs_addr_v v, False, [0])]"
    let ?middle = "?frames @ ?reset @ config_ops req type v @ reserved_ops req type"
    have ops: "image_ops req type v image_opt = ?middle @ [(req, 0, [first_byte v])]"
      using True Some plan by (simp add: image_ops_def trailer_ops_def)
    have stat: "image_status v image_opt = Return 0"
      using True Some plan by (simp add: image_status_complete)
    have short: "list_all short_op (image_ops req type v image_opt)"
      unfolding ops using eeprom_frames_short[OF allv, of req False "ee_addr_v v"]
      by (simp add: short_op_def segment_header_def config_ops_def reserved_ops_def)
    have low: "list_all (low_op 65536) ?middle" if fits: "eeprom_end v img \<le> 65536"
    proof -
      have b: "unat (ee_addr_v v) + framed_size segs + 5 \<le> 65536"
        using fits plan by (simp add: eeprom_end_def)
      then have uc: "unat ?c = unat (ee_addr_v v) + framed_size segs"
        by (simp add: unat_word_ariths unat_of_nat)
      have 1: "list_all (low_op 65536) ?frames"
        using eeprom_frames_low[of "ee_addr_v v" segs req False] c7 b
        by (auto simp: list_all_iff intro: low_op_mono)
      have 2: "list_all (low_op 65536) ?reset"
        using reset_frame_low[of ?c req "cpucs_addr_v v"] uc b c7 by simp
      show ?thesis using 1 2 trailer_ops_low[of req type v] by simp
    qed
    show ?thesis
      by (rule exI[of _ ?middle]) (use ops stat short low Some in simp)
  next
    case False
    let ?good = "takeWhile valid_segment segs"
    let ?middle = "eeprom_frames req False (ee_addr_v v) ?good"
    have ops: "image_ops req type v image_opt = ?middle"
      using False Some plan by (simp add: image_ops_def)
    have stat: "image_status v image_opt \<noteq> Return 0"
      using False Some plan by (simp add: image_status_complete)
    have short: "list_all short_op ?middle"
      by (rule eeprom_frames_short) (rule list_all_takeWhile)
    have low: "list_all (low_op 65536) ?middle" if fits: "eeprom_end v img \<le> 65536"
    proof -
      have b: "unat (ee_addr_v v) + framed_size ?good < 65536"
        using fits plan framed_size_takeWhile[of valid_segment segs] by (simp add: eeprom_end_def)
      show ?thesis
        using eeprom_frames_low[of "ee_addr_v v" ?good req False] c7 b
        by (auto simp: list_all_iff intro: low_op_mono)
    qed
    show ?thesis
      by (rule exI[of _ ?middle]) (use ops stat short low Some in simp)
  qed
qed

lemma eeprom_ops_shape:
  assumes "select_variant type hp config = Some v"
  shows "\<exists>middle. eeprom_ops req type v image_opt vid pid =
            (req, 0, [0]) # middle @ (if image_status v image_opt = Return 0 then [(req, 0, [first_byte v])] else []) \<and>
          list_all short_op (eeprom_ops req type v image_opt vid pid) \<and>
          ((case image_opt of None \<Rightarrow> True | Some img \<Rightarrow> eeprom_end v img \<le> 65536)
             \<longrightarrow> list_all (low_op 65536) middle)"
proof -
  obtain middle where m: "image_ops req type v image_opt =
            middle @ (if image_status v image_opt = Return 0 then [(req, 0, [first_byte v])] else [])"
    and sh: "list_all short_op (image_ops req type v image_opt)"
    and low: "(case image_opt of None \<Rightarrow> True | Some img \<Rightarrow> eeprom_end v img \<le> 65536)
             \<longrightarrow> list_all (low_op 65536) middle"
    using image_ops_shape[OF assms, of req image_opt] by blast
  have ids: "list_all short_op (id_ops req v vid pid)"
    by (simp add: id_ops_def short_op_def identity_record_def)
  show ?thesis
    by (rule exI[of _ "id_ops req v vid pid @ middle"])
       (use m sh low ids id_ops_low[of req v vid pid] in \<open>simp add: eeprom_ops_def short_op_def\<close>)
qed

lemma low_op_not_touching:
  "low_op 65536 op \<Longrightarrow> \<not> touches_type_byte (snd (op_request dev op))"
  by (cases op) (auto simp: low_op_def touches_type_byte_def op_request_def write_request_def)

lemma writes_post_nth:
  assumes "writes_post dev plan ok evs" and "i < length evs"
  shows "ev_request (evs ! i) = op_request dev (plan ! i)"
proof -
  from assms have "map ev_request evs ! i = take (length evs) (map (op_request dev) plan) ! i"
    and "length evs \<le> length plan"
    by (simp_all add: writes_post_def)
  then show ?thesis using assms(2) by simp
qed

lemma writes_post_hd:
  assumes "writes_post dev (op # plan) ok evs" and "evs \<noteq> []"
  shows "ev_request (hd evs) = op_request dev op"
  using writes_post_nth[OF assms(1), of 0] assms(2) by (simp add: hd_conv_nth)

lemma writes_post_last:
  assumes "writes_post dev (plan @ [op]) True evs"
  shows "evs \<noteq> [] \<and> list_all accepted evs \<and> ev_request (last evs) = op_request dev op"
proof -
  from assms have len: "length evs = Suc (length plan)" and acc: "list_all accepted evs"
    by (simp_all add: writes_post_def)
  then have ne: "evs \<noteq> []" by auto
  have "ev_request (evs ! length plan) = op_request dev ((plan @ [op]) ! length plan)"
    using writes_post_nth[OF assms, of "length plan"] len by simp
  then show ?thesis using ne acc len by (simp add: last_conv_nth)
qed

lemma writes_post_middle:
  assumes post: "writes_post dev (first # middle @ fin) ok evs"
    and low: "list_all (low_op 65536) middle"
    and fin: "fin = [] \<or> \<not> ok \<and> length fin = 1"
  shows "list_all (\<lambda>e. \<not> touches_type_byte (snd (ev_request e))) (filter accepted (tl evs))"
proof -
  have "\<not> touches_type_byte (snd (ev_request e))" if e: "e \<in> set (tl evs)" and acc: "accepted e" for e
  proof -
    from e obtain j where j: "j < length (tl evs)" and ej: "e = tl evs ! j"
      by (auto simp: in_set_conv_nth)
    then have i: "Suc j < length evs" and ei: "e = evs ! Suc j"
      by (simp_all add: nth_tl)
    have rq: "ev_request e = op_request dev ((middle @ fin) ! j)"
      using writes_post_nth[OF post i] ei by simp
    have len: "length evs \<le> Suc (length middle + length fin)"
      using post by (simp add: writes_post_def)
    have "j < length middle"
    proof (rule ccontr)
      assume "\<not> j < length middle"
      with i len fin have nok: "\<not> ok" and last: "Suc j = length evs - 1" and n: "evs \<noteq> []"
        by auto
      from post nok have "ev_status (last evs) = - 1" by (simp add: writes_post_def)
      moreover have "last evs = e" using last n ei by (simp add: last_conv_nth)
      ultimately show False using acc by (simp add: accepted_def)
    qed
    then have "low_op 65536 ((middle @ fin) ! j)"
      using low by (simp add: nth_append list_all_length)
    then show ?thesis using rq low_op_not_touching[of "(middle @ fin) ! j" dev] by simp
  qed
  then show ?thesis by (simp add: list_all_iff)
qed

lemma writes_post_is_write:
  assumes "writes_post dev plan ok evs"
  shows "list_all is_write evs"
proof -
  have "is_write (evs ! i)" if "i < length evs" for i
    using writes_post_nth[OF assms that]
    by (cases "plan ! i") (simp add: is_write_def op_request_def write_request_def)
  then show ?thesis by (simp add: list_all_length)
qed

lemma open_image_trace:
  "case open_image dev path val0 w of (res, w1) \<Rightarrow>
     trace w1 = trace w @ issued w w1 \<and> list_all (\<lambda>e. \<not> is_write e) (issued w w1) \<and>
     files w1 = files w \<and>
     (case res of Inl status \<Rightarrow> status < 0
                | Inr image_opt \<Rightarrow> image_opt = (case path of None \<Rightarrow> None | Some p \<Rightarrow> files w p))"
proof (cases path)
  case None
  then show ?thesis by (simp add: open_image_def issued_def)
next
  case (Some p)
  define ctrl where "ctrl = \<lparr>bRequestType = USB_DIR_IN OR USB_TYPE_VENDOR OR USB_RECIP_DEVICE,
      bRequest = GET_EEPROM_SIZE, wValue = 0, wIndex = 0, wLength = of_nat (length [val0]),
      ctrl_timeout = 10000, ctrl_data = [val0]\<rparr>"
  define r where "r = usbfs w (trace w) dev ctrl"
  have nw: "\<not> is_write (dev, ctrl, r)"
    by (simp add: is_write_def ev_request_def ctrl_def USB_DIR_IN_def USB_TYPE_VENDOR_def USB_RECIP_DEVICE_def)
  obtain status val w1 where g: "ezusb_get_eeprom_type dev val0 w = (status, val, w1)"
    by (cases "ezusb_get_eeprom_type dev val0 w")
  have tr: "trace w1 = trace w @ [(dev, ctrl, r)]" and fl: "files w1 = files w"
    using g
    by (auto simp: ezusb_get_eeprom_type_def ezusb_read_def ctrl_msg_def ioctl_control_def
        USHRT_MAX_def Let_def ctrl_def r_def split: ioctl_result.splits prod.splits)
  have iss: "issued w w1 = [(dev, ctrl, r)]" by (simp add: issued_def tr)
  show ?thesis
    using Some g tr fl nw iss
    by (auto simp: open_image_def split: option.splits)
qed

lemma follows_ezusb_get_eeprom_type: "follows w (snd (snd (ezusb_get_eeprom_type dev val0 w)))"
  using follows_ctrl_msg[where w = w and dev = dev and rq = GET_EEPROM_SIZE and val = 0 and idx = 0
      and buf = "[val0]" and rt = "USB_DIR_IN OR USB_TYPE_VENDOR OR USB_RECIP_DEVICE"]
  by (auto simp: ezusb_get_eeprom_type_def ezusb_read_def split: prod.splits)

lemma follows_open_image: "follows w (snd (open_image dev path val0 w))"
  using follows_ezusb_get_eeprom_type[of w dev val0]
  by (auto simp: open_image_def follows_refl split: option.splits prod.splits)

lemma follows_run_writes: "follows w (snd (run_writes dev ops w))"
proof (induction ops arbitrary: w)
  case Nil
  then show ?case by (simp add: follows_refl)
next
  case (Cons op ops)
  obtain opc addr buf where op: "op = (opc, addr, buf)" by (cases op)
  obtain status w1 where wr: "ezusb_write dev opc addr buf w = (status, w1)"
    by (cases "ezusb_write dev opc addr buf w")
  have f1: "follows w w1" using follows_ezusb_write[of w dev opc addr buf] wr by simp
  show ?case
    using f1 Cons.IH[of w1] wr op by (auto intro: follows_trans)
qed

lemma open_image_early:
  "(case open_image dev path val0 w of
      (Inl s, w1) \<Rightarrow> s = - 1 \<or> s = - 2
    | (Inr io, w1) \<Rightarrow> True) \<and>
   (returns_before_mark dev path type val0 w \<longleftrightarrow>
      (case fst (open_image dev path val0 w) of Inl s \<Rightarrow> True | Inr io \<Rightarrow> False) \<or>
      select_variant type (path \<noteq> None) config = None)"
proof (cases path)
  case None
  then show ?thesis
    by (auto simp: open_image_def returns_before_mark_def select_variant_def)
next
  case (Some p)
  obtain status val w1 where g: "ezusb_get_eeprom_type dev val0 w = (status, val, w1)"
    by (cases "ezusb_get_eeprom_type dev val0 w")
  have fl: "files w1 = files w"
    using follows_ezusb_get_eeprom_type[of w dev val0] g by (simp add: follows_def)
  show ?thesis
    using Some g fl
    by (auto simp: open_image_def returns_before_mark_def select_variant_def split: option.splits)
qed

lemma select_variant_first_byte:
  assumes "select_variant type hp config = Some v"
  shows "first_byte v = (if type = ''fx2'' \<or> type = ''fx2lp'' then (if hp then 0xC2 else 0xC0)
                         else if type = ''fx'' then 0xB6 else 0xB2)"
  using assms by (auto simp: select_variant_def split: if_splits)


section \<open>Loading the EEPROM: the order of the writes\<close>

text \<open>
  C1, as amended. For every call of \<^verbatim>\<open>ezusb_load_eeprom\<close>, every device and every image,
  the requests of the call are answered by the device, and:

  \<^item> a call that returns before the mark (the probe of the EEPROM refused, the image not
    opened, an unknown variant, \<^verbatim>\<open>fx\<close> or \<^verbatim>\<open>an21\<close> without a path) issues no write at all
    and returns \<open>-1\<close> or \<open>-2\<close>; every other call issues writes, and the first of them is
    the single byte 0 at offset 0;

  \<^item> every write but the last was accepted, so a rejected write is the last request, and
    the call then returns its negative status;

  \<^item> when the call returns 0 every write was accepted and the last request of the call is
    the write at offset 0 of the type byte of the variant, which is not 0: \<open>0xC2\<close> for
    \<^verbatim>\<open>fx2\<close> and \<^verbatim>\<open>fx2lp\<close> with an image and \<open>0xC0\<close> without, \<open>0xB6\<close> for \<^verbatim>\<open>fx\<close>, \<open>0xB2\<close> for
    \<^verbatim>\<open>an21\<close>;

  \<^item> when the call does not return 0 and the frames of the image fit the 16-bit address
    space, no accepted write after the first touches offset 0: the type byte was last
    written as 0.
\<close>

theorem load_eeprom_boot_safety:
  "case ezusb_load_eeprom dev path type config large_eeprom ww_config_vid ww_config_pid val0 w of
     (r, w') \<Rightarrow>
       usbfs w' = usbfs w \<and> trace w' = trace w @ issued w w' \<and>
       device_answers (usbfs w) (trace w) (issued w w') \<and>
       (if returns_before_mark dev path type val0 w
        then eeprom_writes w w' = [] \<and> (r = Return (- 1) \<or> r = Return (- 2))
        else eeprom_writes w w' \<noteq> [] \<and>
             ev_request (hd (eeprom_writes w w'))
               = (dev, write_request (eeprom_opcode large_eeprom) 0 [0])) \<and>
       list_all accepted (butlast (eeprom_writes w w')) \<and>
       (eeprom_writes w w' \<noteq> [] \<and> \<not> accepted (last (eeprom_writes w w')) \<longrightarrow>
          r = Return (ev_status (last (eeprom_writes w w'))) \<and> ev_status (last (eeprom_writes w w')) < 0) \<and>
       (r = Return 0 \<longrightarrow>
          eeprom_writes w w' \<noteq> [] \<and> list_all accepted (eeprom_writes w w') \<and>
          last (issued w w') = last (eeprom_writes w w') \<and>
          (\<exists>v. select_variant type (path \<noteq> None) config = Some v \<and>
             first_byte v = (if type = ''fx2'' \<or> type = ''fx2lp''
                             then (if path \<noteq> None then 0xC2 else 0xC0)
                             else if type = ''fx'' then 0xB6 else 0xB2) \<and>
             first_byte v \<noteq> 0 \<and>
             ev_request (last (eeprom_writes w w'))
               = (dev, write_request (eeprom_opcode large_eeprom) 0 [first_byte v]))) \<and>
       (r \<noteq> Return 0 \<and> image_fits path type config w \<longrightarrow>
          list_all (\<lambda>e. \<not> touches_type_byte (snd (ev_request e)))
            (filter accepted (tl (eeprom_writes w w'))))"
proof -
  define req where "req = eeprom_opcode large_eeprom"
  obtain res w1 where oi: "open_image dev path val0 w = (res, w1)"
    by (cases "open_image dev path val0 w")
  have tr1: "trace w1 = trace w @ issued w w1" and nw: "list_all (\<lambda>e. \<not> is_write e) (issued w w1)"
    and fl: "files w1 = files w"
    and res: "case res of Inl status \<Rightarrow> status < 0
                | Inr image_opt \<Rightarrow> image_opt = (case path of None \<Rightarrow> None | Some p \<Rightarrow> files w p)"
    using open_image_trace[where dev = dev and path = path and ?val0.0 = val0 and w = w] oi by simp_all
  have fo1: "follows w w1" using follows_open_image[of w dev path val0] oi by simp
  have early_iff: "returns_before_mark dev path type val0 w \<longleftrightarrow>
      (case res of Inl s \<Rightarrow> True | Inr io \<Rightarrow> False) \<or> select_variant type (path \<noteq> None) config = None"
    and early_status: "case res of Inl s \<Rightarrow> s = - 1 \<or> s = - 2 | Inr io \<Rightarrow> True"
    using open_image_early[of dev path val0 w type config] oi by (simp_all split: sum.splits)
  have nowrites: "filter is_write (issued w w1) = []"
    using nw by (simp add: list_all_iff filter_empty_conv)
  have early: ?thesis
    if r: "ezusb_load_eeprom dev path type config large_eeprom ww_config_vid ww_config_pid val0 w = (Return s, w1)"
      and s: "s = - 1 \<or> s = - 2" and e: "returns_before_mark dev path type val0 w" for s
  proof -
    have "usbfs w1 = usbfs w \<and> trace w1 = trace w @ issued w w1 \<and>
       device_answers (usbfs w) (trace w) (issued w w1)"
      using fo1 by (simp add: follows_def)
    moreover have "eeprom_writes w w1 = []" using nowrites by (simp add: eeprom_writes_def)
    ultimately show ?thesis
      unfolding r prod.case if_P[OF e] using s by auto
  qed
  show ?thesis
  proof (cases res)
    case (Inl status)
    have r: "ezusb_load_eeprom dev path type config large_eeprom ww_config_vid ww_config_pid val0 w = (Return status, w1)"
      using oi Inl by (simp add: load_eeprom_plan)
    have e: "returns_before_mark dev path type val0 w" using early_iff Inl by simp
    have s: "status = - 1 \<or> status = - 2" using early_status Inl by simp
    show ?thesis by (rule early[OF r s e])
  next
    case (Inr image_opt)
    then have io: "image_opt = (case path of None \<Rightarrow> None | Some p \<Rightarrow> files w p)" using res by simp
    show ?thesis
    proof (cases "select_variant type (path \<noteq> None) config")
      case None
      have r: "ezusb_load_eeprom dev path type config large_eeprom ww_config_vid ww_config_pid val0 w = (Return (- 1), w1)"
        using oi Inr None by (simp add: load_eeprom_plan)
      have e: "returns_before_mark dev path type val0 w" using early_iff None by simp
      show ?thesis by (rule early[OF r _ e]) simp
    next
      case (Some v)
      have ne: "\<not> returns_before_mark dev path type val0 w"
        using early_iff Inr Some by simp
      let ?plan = "eeprom_ops req type v image_opt ww_config_vid ww_config_pid"
      obtain ok w' where rw: "run_writes dev ?plan w1 = (ok, w')" by (cases "run_writes dev ?plan w1")
      have fo2: "follows w1 w'" using follows_run_writes[of w1 dev ?plan] rw by simp
      have fo: "usbfs w' = usbfs w \<and> trace w' = trace w @ issued w w' \<and>
          device_answers (usbfs w) (trace w) (issued w w')"
        using follows_trans[OF fo1 fo2] by (simp add: follows_def)
      define r where "r = (if ok then image_status v image_opt else Return (- 1))"
      have run: "ezusb_load_eeprom dev path type config large_eeprom ww_config_vid ww_config_pid val0 w = (r, w')"
        using oi Inr Some rw by (simp add: load_eeprom_plan plan_result_def req_def eeprom_opcode_def r_def)
      obtain middle where shape: "?plan = (req, 0, [0]) # middle
             @ (if image_status v image_opt = Return 0 then [(req, 0, [first_byte v])] else [])"
        and short: "list_all short_op ?plan"
        and low: "(case image_opt of None \<Rightarrow> True | Some img \<Rightarrow> eeprom_end v img \<le> 65536)
             \<longrightarrow> list_all (low_op 65536) middle"
        using eeprom_ops_shape[OF Some, of req image_opt ww_config_vid ww_config_pid] by blast
      define evs where "evs = issued w1 w'"
      have tr2: "trace w' = trace w1 @ evs" and post: "writes_post dev ?plan ok evs"
        using run_writes_trace[OF short, where dev = dev and w = w1] rw by (simp_all add: evs_def)
      have tr: "trace w' = trace w @ issued w w1 @ evs" using tr1 tr2 by simp
      have iss: "issued w w' = issued w w1 @ evs"
        unfolding issued_def[of w w'] by (subst tr) simp
      have ws: "eeprom_writes w w' = evs"
        using writes_post_is_write[OF post] nowrites
        by (simp add: eeprom_writes_def iss list_all_iff filter_id_conv)
      have evne: "evs \<noteq> []"
        using post unfolding shape by (auto simp: writes_post_def split: if_splits)
      have a: "ev_request (hd evs) = (dev, write_request req 0 [0])"
        using writes_post_hd[of dev "(req, 0, [0])"] post evne unfolding shape
        by (auto simp: op_request_def)
      have c1: "list_all accepted (butlast evs)" using post by (simp add: writes_post_def)
      have c2: "evs \<noteq> [] \<and> \<not> accepted (last evs) \<longrightarrow> r = Return (ev_status (last evs)) \<and> ev_status (last evs) < 0"
      proof
        assume h: "evs \<noteq> [] \<and> \<not> accepted (last evs)"
        have "\<not> ok"
        proof
          assume ok
          then have "list_all accepted evs" using post by (simp add: writes_post_def)
          then show False using h last_in_set[of evs] by (auto simp: list_all_iff)
        qed
        then show "r = Return (ev_status (last evs)) \<and> ev_status (last evs) < 0"
          using post by (simp add: writes_post_def r_def)
      qed
      have b: "r = Return 0 \<longrightarrow> evs \<noteq> [] \<and> list_all accepted evs \<and>
          last (issued w w') = last evs \<and>
          (\<exists>v. select_variant type (path \<noteq> None) config = Some v \<and>
             first_byte v = (if type = ''fx2'' \<or> type = ''fx2lp''
                             then (if path \<noteq> None then 0xC2 else 0xC0)
                             else if type = ''fx'' then 0xB6 else 0xB2) \<and>
             first_byte v \<noteq> 0 \<and>
             ev_request (last evs) = (dev, write_request req 0 [first_byte v]))"
      proof
        assume r0: "r = Return 0"
        then have ok: ok and st: "image_status v image_opt = Return 0"
          by (auto simp: r_def split: if_splits)
        have "writes_post dev (((req, 0, [0]) # middle) @ [(req, 0, [first_byte v])]) True evs"
          using post ok st unfolding shape by simp
        from writes_post_last[OF this]
        have l: "evs \<noteq> []" "list_all accepted evs"
          "ev_request (last evs) = (dev, write_request req 0 [first_byte v])"
          by (simp_all add: op_request_def)
        have fb: "first_byte v \<in> {0xC0, 0xC2, 0xB6, 0xB2}" by (rule select_variant_facts(1)[OF Some])
        then have nz: "first_byte v \<noteq> 0" by auto
        have fv: "first_byte v = (if type = ''fx2'' \<or> type = ''fx2lp''
                             then (if path \<noteq> None then 0xC2 else 0xC0)
                             else if type = ''fx'' then 0xB6 else 0xB2)"
          by (rule select_variant_first_byte[OF Some])
        have li: "last (issued w w') = last evs" using l(1) iss by simp
        show "evs \<noteq> [] \<and> list_all accepted evs \<and> last (issued w w') = last evs \<and>
          (\<exists>v. select_variant type (path \<noteq> None) config = Some v \<and>
             first_byte v = (if type = ''fx2'' \<or> type = ''fx2lp''
                             then (if path \<noteq> None then 0xC2 else 0xC0)
                             else if type = ''fx'' then 0xB6 else 0xB2) \<and>
             first_byte v \<noteq> 0 \<and>
             ev_request (last evs) = (dev, write_request req 0 [first_byte v]))"
          using l li nz fv Some by blast
      qed
      have d: "r \<noteq> Return 0 \<and> image_fits path type config w \<longrightarrow>
          list_all (\<lambda>e. \<not> touches_type_byte (snd (ev_request e))) (filter accepted (tl evs))"
      proof
        assume h: "r \<noteq> Return 0 \<and> image_fits path type config w"
        have fits: "case image_opt of None \<Rightarrow> True | Some img \<Rightarrow> eeprom_end v img \<le> 65536"
          using h io Some by (auto simp: image_fits_def split: option.splits)
        then have lowm: "list_all (low_op 65536) middle" using low by simp
        let ?fin = "if image_status v image_opt = Return 0 then [(req, 0, [first_byte v])] else []"
        have fin: "?fin = [] \<or> \<not> ok \<and> length ?fin = 1"
          using h by (auto simp: r_def split: if_splits)
        have "writes_post dev ((req, 0, [0]) # middle @ ?fin) ok evs" using post unfolding shape .
        from writes_post_middle[OF this lowm fin]
        show "list_all (\<lambda>e. \<not> touches_type_byte (snd (ev_request e))) (filter accepted (tl evs))" .
      qed
      show ?thesis
        unfolding run prod.case ws if_not_P[OF ne] req_def[symmetric]
        using fo evne a c1 c2 b d by blast
    qed
  qed
qed


lemma load_eeprom_run_aborted: "ezusb_load_eeprom 3 (Some ''fw.hex'') ''fx2'' 0 False (- 1) (- 1) 0
        (world_of (failing_after 6) fw_files)
    = (Return (- 1),
       \<lparr>usbfs = failing_after 6,
        trace = [(3, \<lparr>bRequestType = 0xC0, bRequest = 0xA5, wValue = 0, wIndex = 0, wLength = 1,
                      ctrl_timeout = 10000, ctrl_data = [0]\<rparr>, Transferred 1 []),
                 (3, write_request 0xA2 0 [0], Transferred 1 []),
                 (3, write_request 0xA2 1 [0xB4, 0x04, 0x73, 0x64, 0x05, 0xA0], Transferred 6 []),
                 (3, write_request 0xA2 8 [0, 1, 0, 0], Transferred 4 []),
                 (3, write_request 0xA2 12 [0x55], Transferred 1 []),
                 (3, write_request 0xA2 13 [0x80, 1, 0xE6, 0], Transferred 4 []),
                 (3, write_request 0xA2 17 [0], Failed 5)],
        errno = 5, files = fw_files, verbose = 0\<rparr>)"
  by (simp add: eeprom_eval usb_eval parse_eval write_request_def fw_files_def)

lemma load_eeprom_run_complete: "ezusb_load_eeprom 3 (Some ''fw.hex'') ''fx2'' 0 False (- 1) (- 1) 0
        (world_of good_device fw_files)
    = (Return 0,
       \<lparr>usbfs = good_device,
        trace = [(3, \<lparr>bRequestType = 0xC0, bRequest = 0xA5, wValue = 0, wIndex = 0, wLength = 1,
                      ctrl_timeout = 10000, ctrl_data = [0]\<rparr>, Transferred 1 [1]),
                 (3, write_request 0xA2 0 [0], Transferred 1 [1]),
                 (3, write_request 0xA2 1 [0xB4, 0x04, 0x73, 0x64, 0x05, 0xA0], Transferred 6 [1, 1, 1, 1, 1, 1]),
                 (3, write_request 0xA2 8 [0, 1, 0, 0], Transferred 4 [1, 1, 1, 1]),
                 (3, write_request 0xA2 12 [0x55], Transferred 1 [1]),
                 (3, write_request 0xA2 13 [0x80, 1, 0xE6, 0], Transferred 4 [1, 1, 1, 1]),
                 (3, write_request 0xA2 17 [0], Transferred 1 [1]),
                 (3, write_request 0xA2 7 [0], Transferred 1 [1]),
                 (3, write_request 0xA2 0 [0xC2], Transferred 1 [1])],
        errno = 0, files = fw_files, verbose = 0\<rparr>)"
  by (simp add: eeprom_eval usb_eval parse_eval write_request_def fw_files_def)

lemma load_eeprom_run_fits: "image_fits (Some ''fw.hex'') ''fx2'' 0 (world_of (failing_after 6) fw_files)"
  by (simp add: image_fits_def world_of_def fw_files_def select_variant_def eeprom_end_def
      ihex_segments_def collect_def framed_size_def parse_eval fx2_is_external_def)

text \<open>
  Two runs of \<^verbatim>\<open>fx2\<close> with an image of one segment. The first device fails its seventh
  request, the payload of the reset frame: the call returns \<open>-1\<close>, and the writes accepted
  after the mark are the identity record at 1, the frame of the segment at 8 and 12 and
  the header of the reset frame at 13. The second device accepts everything: the call
  returns 0 and its last write is \<open>0xC2\<close> at offset 0.
\<close>

theorem load_eeprom_boot_safety_witness:
  "fst (ezusb_load_eeprom 3 (Some ''fw.hex'') ''fx2'' 0 False (- 1) (- 1) 0
          (world_of (failing_after 6) fw_files)) = Return (- 1) \<and>
   image_fits (Some ''fw.hex'') ''fx2'' 0 (world_of (failing_after 6) fw_files) \<and>
   \<not> returns_before_mark 3 (Some ''fw.hex'') ''fx2'' 0 (world_of (failing_after 6) fw_files) \<and>
   map (\<lambda>e. (wValue (snd (ev_request e)), ctrl_data (snd (ev_request e)), accepted e))
     (eeprom_writes (world_of (failing_after 6) fw_files)
        (snd (ezusb_load_eeprom 3 (Some ''fw.hex'') ''fx2'' 0 False (- 1) (- 1) 0
                (world_of (failing_after 6) fw_files))))
     = [(0, [0], True), (1, [0xB4, 0x04, 0x73, 0x64, 0x05, 0xA0], True),
        (8, [0, 1, 0, 0], True), (12, [0x55], True), (13, [0x80, 1, 0xE6, 0], True),
        (17, [0], False)] \<and>
   list_all (\<lambda>e. \<not> touches_type_byte (snd (ev_request e)))
     (filter accepted (tl (eeprom_writes (world_of (failing_after 6) fw_files)
        (snd (ezusb_load_eeprom 3 (Some ''fw.hex'') ''fx2'' 0 False (- 1) (- 1) 0
                (world_of (failing_after 6) fw_files)))))) \<and>
   fst (ezusb_load_eeprom 3 (Some ''fw.hex'') ''fx2'' 0 False (- 1) (- 1) 0
          (world_of good_device fw_files)) = Return 0 \<and>
   map (\<lambda>e. (wValue (snd (ev_request e)), ctrl_data (snd (ev_request e)), accepted e))
     (eeprom_writes (world_of good_device fw_files)
        (snd (ezusb_load_eeprom 3 (Some ''fw.hex'') ''fx2'' 0 False (- 1) (- 1) 0
                (world_of good_device fw_files))))
     = [(0, [0], True), (1, [0xB4, 0x04, 0x73, 0x64, 0x05, 0xA0], True),
        (8, [0, 1, 0, 0], True), (12, [0x55], True), (13, [0x80, 1, 0xE6, 0], True),
        (17, [0], True), (7, [0], True), (0, [0xC2], True)]"
proof -
  have early: "\<not> returns_before_mark 3 (Some ''fw.hex'') ''fx2'' 0 (world_of (failing_after 6) fw_files)"
    by (simp add: returns_before_mark_def usb_eval fw_files_def)
  show ?thesis
    using load_eeprom_boot_safety[where dev = 3 and path = "Some ''fw.hex''" and type = "''fx2''"
        and config = 0 and large_eeprom = False and ww_config_vid = "- 1" and ww_config_pid = "- 1"
        and ?val0.0 = 0 and w = "world_of (failing_after 6) fw_files"]
      load_eeprom_boot_safety[where dev = 3 and path = "Some ''fw.hex''" and type = "''fx2''"
        and config = 0 and large_eeprom = False and ww_config_vid = "- 1" and ww_config_pid = "- 1"
        and ?val0.0 = 0 and w = "world_of good_device fw_files"]
      load_eeprom_run_fits early
    unfolding load_eeprom_run_aborted load_eeprom_run_complete
    by (simp add: eeprom_writes_def issued_def world_of_def is_write_def ev_request_def
        write_request_def accepted_def ev_status_def status_of_def)
qed

text \<open>
  C1 as stated fails for a call that is aborted before the mark: the device answers the
  probe, the image cannot be opened, the call returns \<open>-2\<close> after its one request and
  has written nothing, so the type byte was not written as 0.
\<close>

theorem load_eeprom_abort_before_mark:
  "ezusb_load_eeprom 3 (Some ''missing.hex'') ''fx2'' 0 False (- 1) (- 1) 0
       (world_of good_device (\<lambda>p. None))
     = (Return (- 2),
        \<lparr>usbfs = good_device,
         trace = [(3, \<lparr>bRequestType = 0xC0, bRequest = 0xA5, wValue = 0, wIndex = 0, wLength = 1,
                        ctrl_timeout = 10000, ctrl_data = [0]\<rparr>, Transferred 1 [1])],
         errno = 0, files = (\<lambda>p. None), verbose = 0\<rparr>) \<and>
   eeprom_writes (world_of good_device (\<lambda>p. None))
       (snd (ezusb_load_eeprom 3 (Some ''missing.hex'') ''fx2'' 0 False (- 1) (- 1) 0
               (world_of good_device (\<lambda>p. None)))) = []"
  by (simp add: eeprom_eval usb_eval eeprom_writes_def issued_def is_write_def ev_request_def)

section \<open>The end of the input\<close>

lemma loop_body_collect_data_record:
  assumes d: "data_record line" and inv: "isx = None \<longrightarrow> \<not> external st"
    and fl: "first_line st \<longrightarrow> data st = []" and dl: "length (data st) \<le> 1023"
  shows "\<exists>st' segs.
     loop_body isx collect line st acc = Continue st' (acc @ classify isx segs) \<and>
     (isx = None \<longrightarrow> \<not> external st') \<and> \<not> first_line st' \<and> length (data st') \<le> 1023 \<and>
     (\<forall>recs. merge_records (if first_line st then of_nat (record_offset line) else data_addr st)
               (data st) ((record_offset line, record_data line) # recs)
            = segs @ merge_records (data_addr st') (data st') recs)"
proof -
  define buf where "buf = strip_newline line"
  define len where "len = strtoul (field buf 1 3)"
  define off where "off = strtoul (field buf 3 7) mod 2 ^ 32"
  define bs where "bs = record_bytes buf len"
  define st1 where "st1 = (if first_line st then st\<lparr>data_addr := of_nat off, first_line := False\<rparr> else st)"
  have l: "len \<le> 255" and t: "strtoul (field buf 7 9) mod 256 = 0"
    and s: "2 * len + 11 \<le> length (cstring buf)"
    using d by (simp_all add: data_record_def buf_def len_def)
  have m: "(len * 2 + 11) mod 2 ^ 64 = len * 2 + 11" using l by simp
  have lb: "length bs = len" by (simp add: bs_def record_bytes_def)
  have ro: "record_offset line = off" by (simp add: record_offset_def off_def buf_def)
  have rd: "record_data line = bs"
    by (simp add: record_data_def record_length_def bs_def len_def buf_def)
  have d1: "data st1 = data st" and e1: "external st1 = external st"
    and f1: "\<not> first_line st1"
    and a1: "data_addr st1 = (if first_line st then of_nat off else data_addr st)"
    by (simp_all add: st1_def)
  have rl: "record_line isx collect buf st acc = accumulate isx collect buf off len st1 acc"
    unfolding record_line_def Let_def len_def[symmetric] off_def[symmetric] st1_def[symmetric]
    using t s m by (simp add: mult.commute)
  have lbd: "loop_body isx collect line st acc = accumulate isx collect buf off len st1 acc"
    using d rl by (simp add: loop_body_def data_record_def buf_def)
  have md: "(length (data st1) + len) mod 2 ^ 64 = length (data st1) + len"
    using l dl d1 by simp
  show ?thesis
  proof (cases "data st1 \<noteq> [] \<and> (off \<noteq> unat (data_addr st1) + length (data st1)
              \<or> length (data st1) + len > 1023)")
    case True
    define ext where "ext = (case isx of None \<Rightarrow> False | Some f \<Rightarrow> f (data_addr st1) (length (data st1)))"
    define st2 where "st2 = (case isx of None \<Rightarrow> st1
                 | Some f \<Rightarrow> st1\<lparr>external := f (data_addr st1) (length (data st1))\<rparr>)"
    have ex2: "external st2 = ext" using inv e1 by (simp add: st2_def ext_def split: option.splits)
    have fc: "flush isx collect st1 acc = (0, st2, acc @ [(data_addr st1, ext, data st1)])"
      using ex2 by (auto simp: flush_def collect_def Let_def st2_def split: option.splits)
    define st' where "st' = st2\<lparr>data_addr := of_nat off, data := bs\<rparr>"
    have acc: "accumulate isx collect buf off len st1 acc
        = Continue st' (acc @ [(data_addr st1, ext, data st1)])"
      unfolding accumulate_def md using True fc l by (simp add: st'_def bs_def)
    have cl: "classify isx [(data_addr st1, data st1)] = [(data_addr st1, ext, data st1)]"
      by (cases isx) (simp_all add: classify_def ext_def)
    have p1: "isx = None \<longrightarrow> \<not> external st'" using inv e1 by (simp add: st'_def st2_def)
    have p2: "\<not> first_line st'" using f1 by (simp add: st'_def st2_def split: option.splits)
    have p3: "length (data st') \<le> 1023" using l lb by (simp add: st'_def)
    have p4: "\<forall>recs. merge_records (if first_line st then of_nat (record_offset line) else data_addr st)
               (data st) ((record_offset line, record_data line) # recs)
            = [(data_addr st1, data st1)] @ merge_records (data_addr st') (data st') recs"
      using True lb unfolding ro rd a1[symmetric] d1[symmetric]
      by (simp add: st'_def)
    show ?thesis
      using lbd acc cl p1 p2 p3 p4 by metis
  next
    case False
    have small: "length (data st1) + len \<le> 1023"
    proof (cases "data st1 = []")
      case True
      then show ?thesis using l by simp
    next
      case ne: False
      with False show ?thesis by auto
    qed
    define st' where "st' = st1\<lparr>data := data st1 @ bs\<rparr>"
    have acc: "accumulate isx collect buf off len st1 acc = Continue st' acc"
      unfolding accumulate_def md using False small by (auto simp: st'_def bs_def)
    have cl: "classify isx [] = []" by (simp add: classify_def)
    have p1: "isx = None \<longrightarrow> \<not> external st'" using inv e1 by (simp add: st'_def)
    have p2: "\<not> first_line st'" using f1 by (simp add: st'_def)
    have p3: "length (data st') \<le> 1023" using small lb by (simp add: st'_def)
    have p4: "\<forall>recs. merge_records (if first_line st then of_nat (record_offset line) else data_addr st)
               (data st) ((record_offset line, record_data line) # recs)
            = [] @ merge_records (data_addr st') (data st') recs"
      using False lb unfolding ro rd a1[symmetric] d1[symmetric]
      by (auto simp: st'_def)
    show ?thesis
      using lbd acc cl p1 p2 p3 p4 by (metis append_Nil2)
  qed
qed

lemma classify_append: "classify isx (xs @ ys) = classify isx xs @ classify isx ys"
  by (simp add: classify_def)

lemma parse_loop_collect_records:
  assumes "list_all (\<lambda>l. comment_line l \<or> data_record l) (ihex_lines img)"
    and "isx = None \<longrightarrow> \<not> external st" and "first_line st \<longrightarrow> data st = []"
    and "length (data st) \<le> 1023"
  shows "parse_loop isx collect img st acc
     = (Return 0, acc @ classify isx
          (merge_records
             (if first_line st then (case image_records img of [] \<Rightarrow> 0 | r # rs \<Rightarrow> of_nat (fst r))
              else data_addr st)
             (data st) (image_records img)))"
  using assms
proof (induction "length img" arbitrary: img st acc rule: less_induct)
  case less
  show ?case
  proof (cases "fgets 512 img")
    case None
    then have nl: "ihex_lines img = []" by (subst ihex_lines.simps) simp
    have nr: "image_records img = []" by (simp add: image_records_def nl)
    have pl: "parse_loop isx collect img st acc = flush_remaining isx collect st acc"
      using None by (subst parse_loop.simps) simp
    show ?thesis
    proof (cases "data st = []")
      case True
      then show ?thesis unfolding pl nr by (simp add: flush_remaining_def classify_def)
    next
      case False
      then have nf: "\<not> first_line st" using less.prems(3) by simp
      show ?thesis unfolding pl nr using False nf less.prems(2)
        by (auto simp: flush_remaining_def flush_def collect_def classify_def Let_def
            split: option.splits)
    qed
  next
    case (Some lr)
    obtain line rest where lr: "lr = (line, rest)" by (cases lr)
    have sh: "length rest < length img" using Some lr fgets_shorter by simp
    have lines: "ihex_lines img = line # ihex_lines rest"
      using Some lr by (subst ihex_lines.simps) simp
    then have ok: "comment_line line \<or> data_record line"
      and rest: "list_all (\<lambda>l. comment_line l \<or> data_record l) (ihex_lines rest)"
      using less.prems(1) by simp_all
    show ?thesis
    proof (cases "comment_line line")
      case True
      have b: "loop_body isx collect line st acc = Continue st acc"
        using True by (simp add: loop_body_def comment_line_def)
      have pl: "parse_loop isx collect img st acc = parse_loop isx collect rest st acc"
        using Some lr b by (subst parse_loop.simps) simp
      have rr: "image_records img = image_records rest"
        using True by (simp add: image_records_def lines)
      show ?thesis
        unfolding pl rr by (rule less.hyps[OF sh rest less.prems(2,3,4)])
    next
      case False
      then have d: "data_record line" using ok by simp
      have rr: "image_records img = (record_offset line, record_data line) # image_records rest"
        using False by (simp add: image_records_def lines)
      obtain st' segs where b: "loop_body isx collect line st acc = Continue st' (acc @ classify isx segs)"
        and p1: "isx = None \<longrightarrow> \<not> external st'" and p2: "\<not> first_line st'"
        and p3: "length (data st') \<le> 1023"
        and p4: "\<forall>recs. merge_records (if first_line st then of_nat (record_offset line) else data_addr st)
               (data st) ((record_offset line, record_data line) # recs)
            = segs @ merge_records (data_addr st') (data st') recs"
        using loop_body_collect_data_record[OF d less.prems(2,3,4), of acc] by blast
      have pl: "parse_loop isx collect img st acc
          = parse_loop isx collect rest st' (acc @ classify isx segs)"
        using Some lr b by (subst parse_loop.simps) simp
      have p2': "first_line st' \<longrightarrow> data st' = []" using p2 by simp
      have ih: "parse_loop isx collect rest st' (acc @ classify isx segs)
          = (Return 0, (acc @ classify isx segs) @ classify isx
               (merge_records (data_addr st') (data st') (image_records rest)))"
        using less.hyps[OF sh rest p1 p2' p3, of "acc @ classify isx segs"] p2 by simp
      have m: "merge_records (if first_line st then of_nat (record_offset line) else data_addr st)
               (data st) ((record_offset line, record_data line) # image_records rest)
            = segs @ merge_records (data_addr st') (data st') (image_records rest)"
        using p4 by blast
      have start: "(if first_line st then (case image_records img of [] \<Rightarrow> 0 | r # rs \<Rightarrow> of_nat (fst r))
              else data_addr st)
           = (if first_line st then of_nat (record_offset line) else data_addr st)"
        by (simp add: rr)
      show ?thesis
        unfolding pl ih start unfolding rr m by (simp add: classify_append)
    qed
  qed
qed

lemma ihex_segments_records:
  assumes "list_all (\<lambda>l. comment_line l \<or> data_record l) (ihex_lines img)"
  shows "ihex_segments isx img = (Return 0, image_segments isx img)"
  unfolding ihex_segments_def parse_ihex_def image_segments_def record_segments_def
  using parse_loop_collect_records[OF assms, where isx = isx and acc = "[]"
      and st = "\<lparr>data_addr = 0, data = [], first_line = True, external = False\<rparr>"]
  by simp

text \<open>
  C2, as amended. \<^verbatim>\<open>parse_ihex\<close> returns for every stream (the model is a total function: every
  turn of the loop consumes a line). When the stream holds only comment lines and data
  records, so that it ends before an end-of-file record has been seen, the function leaves
  the loop at the end of the input and returns 0, the status of success, after it has
  handed to the sink, in order, the segments that the data records merge into, the last of
  them being what is buffered when the input ends. It returns \<open>-1\<close> instead as soon as the
  sink refuses a segment, and hands over nothing more. The missing end-of-file record does
  not make the status a failing one.
\<close>

theorem parse_ihex_end_of_input:
  assumes "list_all (\<lambda>l. comment_line l \<or> data_record l) (ihex_lines img)"
  shows "parse_ihex img ctx is_external poke
     = (case pour poke (image_segments is_external img) ctx of
          (ok, ctx') \<Rightarrow> (if ok then Return 0 else Return (- 1), ctx'))"
  by (simp add: parse_ihex_feed ihex_segments_records[OF assms] feed_def split: prod.splits)


text \<open>
  A stream of a comment and three data records, without an end-of-file record: the first
  two records are contiguous and merge, the third is buffered when the input ends and is
  handed over as the last segment; the result is 0. A sink that counts its calls and
  refuses the segment at \<open>0x2000\<close> has been called twice, and the result is \<open>-1\<close>.
\<close>

lemmas line_eval = data_record_def record_offset_def record_length_def record_data_def
  record_bytes_def field_def cstring_def strip_newline_def strtoul_def isspace_def
  hex_digit_def ULONG_MAX_def Let_def upt_eval

theorem parse_ihex_end_of_input_witness:
  "list_all (\<lambda>l. comment_line l \<or> data_record l)
     (ihex_lines ''# demo\<newline>:0100000055AA\<newline>:010001006698\<newline>:012000007768\<newline>'') \<and>
   image_segments None ''# demo\<newline>:0100000055AA\<newline>:010001006698\<newline>:012000007768\<newline>''
     = [(0, False, [0x55, 0x66]), (0x2000, False, [0x77])] \<and>
   parse_ihex ''# demo\<newline>:0100000055AA\<newline>:010001006698\<newline>:012000007768\<newline>'' [] None collect
     = (Return 0, [(0, False, [0x55, 0x66]), (0x2000, False, [0x77])]) \<and>
   parse_ihex ''# demo\<newline>:0100000055AA\<newline>:010001006698\<newline>:012000007768\<newline>'' (0 :: nat) None
       (\<lambda>n addr ext buf. (if addr = 0x2000 then - 1 else 0, n + 1))
     = (Return (- 1), 2)"
proof -
  let ?img = "''# demo\<newline>:0100000055AA\<newline>:010001006698\<newline>:012000007768\<newline>''"
  have l1: "ihex_lines ?img
      = [''# demo\<newline>'', '':0100000055AA\<newline>'', '':010001006698\<newline>'', '':012000007768\<newline>'']"
    by (simp add: ihex_lines.simps fgets_def)
  have c0: "comment_line ''# demo\<newline>''" by (simp add: comment_line_def)
  have d1: "data_record '':0100000055AA\<newline>''" by (simp add: line_eval)
  have d2: "data_record '':010001006698\<newline>''" by (simp add: line_eval)
  have d3: "data_record '':012000007768\<newline>''" by (simp add: line_eval)
  have n1: "\<not> comment_line '':0100000055AA\<newline>''" "\<not> comment_line '':010001006698\<newline>''"
    "\<not> comment_line '':012000007768\<newline>''"
    by (simp_all add: comment_line_def)
  have r1: "(record_offset '':0100000055AA\<newline>'', record_data '':0100000055AA\<newline>'') = (0, [0x55])"
    by (simp add: line_eval)
  have r2: "(record_offset '':010001006698\<newline>'', record_data '':010001006698\<newline>'') = (1, [0x66])"
    by (simp add: line_eval)
  have r3: "(record_offset '':012000007768\<newline>'', record_data '':012000007768\<newline>'') = (0x2000, [0x77])"
    by (simp add: line_eval)
  have h: "list_all (\<lambda>l. comment_line l \<or> data_record l) (ihex_lines ?img)"
    unfolding l1 using c0 d1 d2 d3 by simp
  have recs: "image_records ?img = [(0, [0x55]), (1, [0x66]), (0x2000, [0x77])]"
    unfolding image_records_def l1 using c0 n1 r1 r2 r3 by simp
  have segs: "image_segments None ?img = [(0, False, [0x55, 0x66]), (0x2000, False, [0x77])]"
    unfolding image_segments_def recs by (simp add: record_segments_def classify_def)
  have a: "parse_ihex ?img [] None collect
     = (Return 0, [(0, False, [0x55, 0x66]), (0x2000, False, [0x77])])"
    using parse_ihex_end_of_input[OF h, where ctx = "[]" and is_external = None and poke = collect]
    unfolding segs by (simp add: collect_def)
  have b: "parse_ihex ?img (0 :: nat) None (\<lambda>n addr ext buf. (if addr = 0x2000 then - 1 else 0, n + 1))
     = (Return (- 1), 2)"
    using parse_ihex_end_of_input[OF h, where ctx = "0 :: nat" and is_external = None
        and poke = "\<lambda>n addr ext buf. (if addr = 0x2000 then - 1 else 0, n + 1)"]
    unfolding segs by simp
  show ?thesis using h segs a b by simp
qed


text \<open>
  C2 as stated fails on a stream of one data record without an end-of-file record: the
  result is 0, and the record has been handed to the sink.
\<close>

theorem parse_ihex_eof_without_record:
  "parse_ihex '':0100000055AA\<newline>'' [] None collect = (Return 0, [(0, False, [0x55])])"
  by (simp add: parse_eval collect_def)

section \<open>Accumulating the records into segments\<close>

text \<open>
  With bytes in the buffer the record is appended exactly when it is contiguous and fits;
  otherwise the buffer is flushed (classified, then handed to the sink) and a new buffer
  starts at the offset of the record.
\<close>

lemma accumulate_nonempty_buffer:
  assumes "data st \<noteq> []" and "length (data st) \<le> 1023" and "len \<le> 255"
  shows "accumulate is_external collect buf off len st acc =
     (if off = unat (data_addr st) + length (data st) \<and> length (data st) + len \<le> 1023
      then Continue (st\<lparr>data := data st @ record_bytes buf len\<rparr>) acc
      else Continue
             (st\<lparr>external := (case is_external of None \<Rightarrow> external st
                                | Some f \<Rightarrow> f (data_addr st) (length (data st))),
                 data_addr := of_nat off, data := record_bytes buf len\<rparr>)
             (acc @ [(data_addr st,
                      (case is_external of None \<Rightarrow> external st
                       | Some f \<Rightarrow> f (data_addr st) (length (data st))),
                      data st)]))"
proof -
  have m: "(length (data st) + len) mod 2 ^ 64 = length (data st) + len"
    using assms by simp
  show ?thesis
    using assms unfolding accumulate_def m
    by (auto simp: flush_def collect_def Let_def split: option.splits)
qed

text \<open>Two contiguous records of 16 bytes at \<open>0x0000\<close> and \<open>0x0010\<close> give one segment of 32 bytes.\<close>

lemma parse_ihex_merges_contiguous_records:
  "parse_ihex '':10000000000102030405060708090A0B0C0D0E0FCC\<newline>:10001000101112131415161718191A1B1C1D1E1FCC\<newline>:00000001FF\<newline>'' [] None collect
   = (Return 0, [(0, False, [0, 1, 2, 3, 4, 5, 6, 7, 8, 9, 10, 11, 12, 13, 14, 15, 16, 17, 18, 19,
                             20, 21, 22, 23, 24, 25, 26, 27, 28, 29, 30, 31])])"
  by (simp add: parse_eval collect_def)

text \<open>
  C3, on the input where the code departs from it. A data record of length 0 at \<open>0x1000\<close>
  leaves the buffer empty with \<^verbatim>\<open>data_addr = 0x1000\<close>; the next record, one byte \<open>0x55\<close>
  at \<open>0x2000\<close>, is not contiguous, but the flush that also moves \<^verbatim>\<open>data_addr\<close> is guarded by
  \<^verbatim>\<open>data_len != 0\<close>, so the byte is appended to the empty buffer and reaches the sink as a
  segment at \<open>0x1000\<close>, where the claim has the new buffer start at the offset of the
  record, \<open>0x2000\<close>.
\<close>

theorem parse_ihex_zero_length_record:
  "parse_ihex '':00100000F0\<newline>:0120000055AA\<newline>:00000001FF\<newline>'' [] None collect
     = (Return 0, [(0x1000, False, [0x55])])"
  by (simp add: parse_eval collect_def)

section \<open>Memory classification: the windows of FX2 and FX2LP\<close>

text \<open>
  C7, as amended. For every address and every length whose sum does not leave \<^verbatim>\<open>size_t\<close>
  (\<open>addr + len < 2 ^ 64\<close>, as for every length of at most 1023 bytes that the parser
  passes), \<^verbatim>\<open>fx2_is_external\<close> returns false exactly for the ranges that lie in the
  window \<open>[0x0000, 0x1fff]\<close> or in the window \<open>[0xe000, 0xe1ff]\<close> (they start in the window
  and do not extend past \<open>0x2000\<close>, respectively \<open>0xe200\<close>), and true for every other
  range; \<^verbatim>\<open>fx2lp_is_external\<close> is the same with the low window \<open>[0x0000, 0x3fff]\<close>. Both
  are functions of the address and the length alone.
\<close>

theorem fx2_fx2lp_is_external_windows:
  assumes "unat addr + len < 2 ^ 64"
  shows "fx2_is_external addr len
     = (\<not> (in_window 0x0000 0x1fff addr len \<or> in_window 0xe000 0xe1ff addr len)) \<and>
   fx2lp_is_external addr len
     = (\<not> (in_window 0x0000 0x3fff addr len \<or> in_window 0xe000 0xe1ff addr len))"
  using assms unfolding fx2_is_external_def fx2lp_is_external_def in_window_def
  by (auto simp: word_le_nat_alt)

text \<open>
  The theorem at the upper bound of the low window of FX2 and at the upper bound of the
  high window: 16 bytes at \<open>0x1ff0\<close> are internal for both chips, 17 bytes are external
  for FX2 and internal for FX2LP; 512 bytes at \<open>0xe000\<close> are internal and 513 are
  external; the empty range at \<open>0x2000\<close> is external for FX2.
\<close>

theorem fx2_fx2lp_is_external_windows_witness:
  "unat (0x1ff0 :: ushort) + 16 < 2 ^ 64 \<and>
   in_window 0x0000 0x1fff (0x1ff0 :: ushort) 16 \<and>
   \<not> fx2_is_external 0x1ff0 16 \<and> \<not> fx2lp_is_external 0x1ff0 16 \<and>
   unat (0x1ff0 :: ushort) + 17 < 2 ^ 64 \<and>
   \<not> in_window 0x0000 0x1fff (0x1ff0 :: ushort) 17 \<and>
   fx2_is_external 0x1ff0 17 \<and> \<not> fx2lp_is_external 0x1ff0 17 \<and>
   \<not> fx2_is_external 0xe000 512 \<and> fx2lp_is_external 0xe000 513 \<and> fx2_is_external 0x2000 0"
  using fx2_fx2lp_is_external_windows [where addr = "0x1ff0" and len = 16]
    fx2_fx2lp_is_external_windows [where addr = "0x1ff0" and len = 17]
    fx2_fx2lp_is_external_windows [where addr = "0xe000" and len = 512]
    fx2_fx2lp_is_external_windows [where addr = "0xe000" and len = 513]
    fx2_fx2lp_is_external_windows [where addr = "0x2000" and len = 0]
  by (simp add: in_window_def)

text \<open>
  Without the bound the equivalence fails: the sum \<^verbatim>\<open>addr + len\<close> is taken in \<^verbatim>\<open>size_t\<close>,
  so for the address 1 and the length \<open>2 ^ 64 - 1\<close> (\<^verbatim>\<open>SIZE_MAX\<close>) it is 0 and the range is
  classified as internal, although it lies in neither window.
\<close>

theorem fx2_is_external_wraps:
  "\<not> fx2_is_external 1 (2 ^ 64 - 1) \<and>
   \<not> (in_window 0x0000 0x1fff 1 (2 ^ 64 - 1) \<or> in_window 0xe000 0xe1ff 1 (2 ^ 64 - 1))"
  by (simp add: fx2_is_external_def in_window_def)

section \<open>Erasing the EEPROM: the chunks written\<close>

lemma erase_props_Cons:
  assumes "accepted e" and "ev_request e = (dev, erase_chunk large k)" and "k < 256"
    and "length J \<le> 256 - Suc k"
    and "map ev_request J = map (\<lambda>i. (dev, erase_chunk large (Suc k + i))) [0..<length J]"
    and "list_all accepted (butlast J)"
    and "if list_all accepted J then Suc k + length J = 256 \<and> rc = 0
         else rc = ev_status (last J) \<and> rc < 0"
  shows "length (e # J) \<le> 256 - k \<and>
     map ev_request (e # J) = map (\<lambda>i. (dev, erase_chunk large (k + i))) [0..<length (e # J)] \<and>
     list_all accepted (butlast (e # J)) \<and>
     (if list_all accepted (e # J) then k + length (e # J) = 256 \<and> rc = 0
      else rc = ev_status (last (e # J)) \<and> rc < 0)"
proof (intro conjI)
  show "length (e # J) \<le> 256 - k" using assms(3,4) by simp
  show "map ev_request (e # J) = map (\<lambda>i. (dev, erase_chunk large (k + i))) [0..<length (e # J)]"
    using assms(2,5) by (simp add: map_upt_Suc del: upt_Suc)
  show "list_all accepted (butlast (e # J))"
    using assms(1,6) by simp
  show "if list_all accepted (e # J) then k + length (e # J) = 256 \<and> rc = 0
      else rc = ev_status (last (e # J)) \<and> rc < 0"
    using assms(1,7) by (cases "J = []") (auto split: if_splits)
qed

lemma erase_loop_trace:
  assumes "k \<le> 256"
  shows "case erase_loop dev large (int (32 * k)) w of (rc, w') \<Rightarrow>
     trace w' = trace w @ issued w w' \<and>
     length (issued w w') \<le> 256 - k \<and>
     map ev_request (issued w w') = map (\<lambda>i. (dev, erase_chunk large (k + i))) [0..<length (issued w w')] \<and>
     list_all accepted (butlast (issued w w')) \<and>
     (if list_all accepted (issued w w') then k + length (issued w w') = 256 \<and> rc = 0
      else rc = ev_status (last (issued w w')) \<and> rc < 0)"
  using assms
proof (induction "256 - k" arbitrary: k w)
  case 0
  then have "k = 256" by simp
  then show ?case by (simp add: issued_def erase_loop.simps)
next
  case (Suc n)
  then have k: "k < 256" by simp
  define opc where "opc = (if large then RW_EEPROM_LARGE else RW_EEPROM)"
  define req where "req = write_request opc (word_of_int (int (32 * k))) (replicate 32 0xff)"
  define r where "r = usbfs w (trace w) dev req"
  define w1 where "w1 = w\<lparr>trace := trace w @ [(dev, req, r)],
                errno := (case r of Transferred n bs \<Rightarrow> errno w | Failed e \<Rightarrow> e)\<rparr>"
  have wr: "ezusb_write dev opc (word_of_int (int (32 * k))) (replicate 32 0xff) w = (status_of r, w1)"
    by (simp add: ezusb_write_short Let_def w1_def r_def req_def)
  have req: "req = erase_chunk large k" by (simp add: erase_chunk_def req_def opc_def)
  have tr1: "trace w1 = trace w @ [(dev, req, r)]" by (simp add: w1_def)
  show ?case
  proof (cases "status_of r < 0")
    case True
    have "erase_loop dev large (int (32 * k)) w = (status_of r, w1)"
      using k True wr by (subst erase_loop.simps) (simp add: opc_def)
    then show ?thesis using True k req tr1
      by (simp add: issued_def ev_request_def ev_status_def accepted_def)
  next
    case False
    have step: "erase_loop dev large (int (32 * k)) w = erase_loop dev large (int (32 * Suc k)) w1"
      using k False wr by (subst erase_loop.simps) (simp add: algebra_simps opc_def)
    obtain rc w' where res: "erase_loop dev large (int (32 * Suc k)) w1 = (rc, w')"
      by (cases "erase_loop dev large (int (32 * Suc k)) w1")
    define J where "J = issued w1 w'"
    have IH: "trace w' = trace w1 @ J \<and>
     length J \<le> 256 - Suc k \<and>
     map ev_request J = map (\<lambda>i. (dev, erase_chunk large (Suc k + i))) [0..<length J] \<and>
     list_all accepted (butlast J) \<and>
     (if list_all accepted J then Suc k + length J = 256 \<and> rc = 0
      else rc = ev_status (last J) \<and> rc < 0)"
    proof -
      have a: "n = 256 - Suc k" using Suc.hyps(2) by simp
      have b: "Suc k \<le> 256" using k by simp
      show ?thesis
        using Suc.hyps(1)[OF a b, of w1] unfolding res J_def prod.case .
    qed
    let ?e = "(dev, req, r)"
    from IH have tr: "trace w' = trace w @ ?e # J" by (simp add: tr1)
    have iss: "issued w w' = ?e # J"
      unfolding issued_def[of w] by (subst tr) simp
    have acc: "accepted ?e" using False by (simp add: accepted_def ev_status_def)
    have rq: "ev_request ?e = (dev, erase_chunk large k)"
      using req by (simp add: ev_request_def)
    have "length (?e # J) \<le> 256 - k \<and>
     map ev_request (?e # J) = map (\<lambda>i. (dev, erase_chunk large (k + i))) [0..<length (?e # J)] \<and>
     list_all accepted (butlast (?e # J)) \<and>
     (if list_all accepted (?e # J) then k + length (?e # J) = 256 \<and> rc = 0
      else rc = ev_status (last (?e # J)) \<and> rc < 0)"
      using IH by (intro erase_props_Cons[OF acc rq k]) (auto split: if_splits)
    with tr show ?thesis
      unfolding step res iss prod.case by (rule conjI)
  qed
qed

lemma follows_erase_loop: "follows w (snd (erase_loop dev large adr w))"
proof (induction dev large adr w rule: erase_loop.induct)
  case (1 dev large adr w)
  show ?case
  proof (cases "adr < 8192")
    case False
    then show ?thesis by (subst erase_loop.simps) (simp add: follows_refl)
  next
    case True
    obtain status w1 where wr: "ezusb_write dev (if large then RW_EEPROM_LARGE else RW_EEPROM)
                (word_of_int adr) (replicate 32 0xff) w = (status, w1)"
      by (cases "ezusb_write dev (if large then RW_EEPROM_LARGE else RW_EEPROM)
                (word_of_int adr) (replicate 32 0xff) w")
    have f1: "follows w w1"
      using follows_ezusb_write[of w dev "if large then RW_EEPROM_LARGE else RW_EEPROM"
          "word_of_int adr" "replicate 32 0xff"] wr by simp
    show ?thesis
    proof (cases "status < 0")
      case True
      then show ?thesis using \<open>adr < 8192\<close> wr f1 by (subst erase_loop.simps) simp
    next
      case False
      have "follows w1 (snd (erase_loop dev large (adr + 32) w1))"
        using 1[OF \<open>adr < 8192\<close> wr[symmetric] False] .
      then show ?thesis
        using \<open>adr < 8192\<close> wr False f1 by (subst erase_loop.simps) (auto intro: follows_trans)
    qed
  qed
qed

text \<open>
  C10. \<^verbatim>\<open>ezusb_erase_eeprom\<close> issues, in this order, the 32-byte writes of \<open>0xff\<close> at the
  addresses \<open>0, 32, 64, ...\<close>: the requests of a run are the first \<open>n\<close> chunks, for some
  \<open>n\<close> up to 256, each with the answer that the device gave to it, and every one but the
  last was accepted. When all were accepted there are 256 of them (the last at 8160, so the
  range \<open>[0, 8192)\<close> is covered) and the result is 0; otherwise the result is the negative
  status of the last request, the first one to be rejected, after which nothing more is
  issued.
\<close>

theorem erase_eeprom_chunks:
  "case ezusb_erase_eeprom dev large w of (rc, w') \<Rightarrow>
     usbfs w' = usbfs w \<and>
     trace w' = trace w @ issued w w' \<and>
     device_answers (usbfs w) (trace w) (issued w w') \<and>
     length (issued w w') \<le> 256 \<and>
     map ev_request (issued w w') = map (\<lambda>i. (dev, erase_chunk large i)) [0..<length (issued w w')] \<and>
     list_all accepted (butlast (issued w w')) \<and>
     (if list_all accepted (issued w w') then length (issued w w') = 256 \<and> rc = 0
      else rc = ev_status (last (issued w w')) \<and> rc < 0)"
proof -
  obtain rc w' where res: "erase_loop dev large 0 w = (rc, w')"
    by (cases "erase_loop dev large 0 w")
  have f: "follows w w'" using follows_erase_loop[of w dev large 0] res by simp
  have z: "int (32 * 0) = 0" by simp
  have e: "trace w' = trace w @ issued w w' \<and>
     length (issued w w') \<le> 256 \<and>
     map ev_request (issued w w') = map (\<lambda>i. (dev, erase_chunk large i)) [0..<length (issued w w')] \<and>
     list_all accepted (butlast (issued w w')) \<and>
     (if list_all accepted (issued w w') then length (issued w w') = 256 \<and> rc = 0
      else rc = ev_status (last (issued w w')) \<and> rc < 0)"
    using erase_loop_trace[where k = 0 and dev = dev and large = large and w = w]
    unfolding z res prod.case by (auto split: if_splits)
  show ?thesis
    unfolding ezusb_erase_eeprom_def res prod.case
    using e f unfolding follows_def by blast
qed

text \<open>
  Two runs. A device that accepts every request is sent all 256 chunks, the last of them at
  8160, and the result is 0. A device that accepts two requests and fails the third with
  \<^verbatim>\<open>EIO\<close> is sent the chunks at 0, 32 and 64 and nothing more; the result is \<open>-1\<close>, the
  status of \<^verbatim>\<open>ioctl\<close> for the third.
\<close>

lemmas erase_eval = ezusb_erase_eeprom_def erase_loop.simps erase_chunk_def write_request_def
  Let_def

theorem erase_eeprom_chunks_witness:
  "fst (ezusb_erase_eeprom 3 False (world_of good_device (\<lambda>p. None))) = 0 \<and>
   map ev_request (trace (snd (ezusb_erase_eeprom 3 False (world_of good_device (\<lambda>p. None)))))
     = map (\<lambda>i. (3, erase_chunk False i)) [0..<256] \<and>
   erase_chunk False 255 = write_request 0xA2 8160 (replicate 32 0xff) \<and>
   ezusb_erase_eeprom 3 True (world_of (failing_after 2) (\<lambda>p. None))
     = (- 1, \<lparr>usbfs = failing_after 2,
              trace = [(3, write_request 0xA9 0 (replicate 32 0xff), Transferred 32 []),
                       (3, write_request 0xA9 32 (replicate 32 0xff), Transferred 32 []),
                       (3, write_request 0xA9 64 (replicate 32 0xff), Failed 5)],
              errno = 5, files = (\<lambda>p. None), verbose = 0\<rparr>)"
proof -
  let ?w = "world_of good_device (\<lambda>p. None)"
  obtain rc w' where res: "ezusb_erase_eeprom 3 False ?w = (rc, w')"
    by (cases "ezusb_erase_eeprom 3 False ?w")
  have t: "trace ?w = []" and u: "usbfs ?w = good_device" by (simp_all add: world_of_def)
  define evs where "evs = issued ?w w'"
  have all: "trace w' = evs \<and> device_answers good_device [] evs \<and>
      map ev_request evs = map (\<lambda>i. (3, erase_chunk False i)) [0..<length evs] \<and>
      (if list_all accepted evs then length evs = 256 \<and> rc = 0
       else rc = ev_status (last evs) \<and> rc < 0)"
    using erase_eeprom_chunks[where dev = 3 and large = False and w = ?w]
    unfolding res prod.case t u evs_def[symmetric] append_Nil by blast
  then have acc: "list_all accepted evs" using device_answers_good_device by blast
  from all have "length evs = 256 \<and> rc = 0" unfolding if_P[OF acc] by simp
  with all have good: "rc = 0 \<and> map ev_request (trace w') = map (\<lambda>i. (3, erase_chunk False i)) [0..<256]"
    by simp
  have chunk: "erase_chunk False 255 = write_request 0xA2 8160 (replicate 32 0xff)"
    by (simp add: erase_chunk_def RW_EEPROM_def)
  have bad: "ezusb_erase_eeprom 3 True (world_of (failing_after 2) (\<lambda>p. None))
     = (- 1, \<lparr>usbfs = failing_after 2,
              trace = [(3, write_request 0xA9 0 (replicate 32 0xff), Transferred 32 []),
                       (3, write_request 0xA9 32 (replicate 32 0xff), Transferred 32 []),
                       (3, write_request 0xA9 64 (replicate 32 0xff), Failed 5)],
              errno = 5, files = (\<lambda>p. None), verbose = 0\<rparr>)"
    by (simp add: erase_eval usb_eval)
  show ?thesis using good bad chunk unfolding res by simp
qed

section \<open>Loading the EEPROM: the AN21 variant needs an image\<close>

text \<open>
  C8. A call of \<^verbatim>\<open>ezusb_load_eeprom\<close> for the variant \<^verbatim>\<open>an21\<close> without an image path returns
  the failing status \<open>-1\<close> and leaves the world as it was: no request has been issued.
\<close>

theorem load_eeprom_an21_without_path:
  "ezusb_load_eeprom dev None ''an21'' config large_eeprom ww_config_vid ww_config_pid val0 w
     = (Return (- 1), w)"
  by (simp add: ezusb_load_eeprom_def open_image_def select_variant_def)

section \<open>Loading the EEPROM: the identity record\<close>






lemma load_eeprom_cases:
  "case ezusb_load_eeprom dev path type config large_eeprom ww_config_vid ww_config_pid val0 w of
     (r, w') \<Rightarrow>
       (eeprom_writes w w' = [] \<and> r \<noteq> Return 0) \<or>
       (\<exists>v ok.
          select_variant type (path \<noteq> None) config = Some v \<and>
          (case path of None \<Rightarrow> True | Some p \<Rightarrow> files w p \<noteq> None) \<and>
          r = (if ok then image_status v (case path of None \<Rightarrow> None | Some p \<Rightarrow> files w p)
               else Return (- 1)) \<and>
          writes_post dev
            (eeprom_ops (eeprom_opcode large_eeprom) type v
               (case path of None \<Rightarrow> None | Some p \<Rightarrow> files w p) ww_config_vid ww_config_pid)
            ok (eeprom_writes w w'))"
proof -
  define req where "req = eeprom_opcode large_eeprom"
  obtain res w1 where oi: "open_image dev path val0 w = (res, w1)"
    by (cases "open_image dev path val0 w")
  have tr1: "trace w1 = trace w @ issued w w1" and nw: "list_all (\<lambda>e. \<not> is_write e) (issued w w1)"
    and fl: "files w1 = files w"
    and res: "case res of Inl status \<Rightarrow> status < 0
                | Inr image_opt \<Rightarrow> image_opt = (case path of None \<Rightarrow> None | Some p \<Rightarrow> files w p)"
    using open_image_trace[where dev = dev and path = path and ?val0.0 = val0 and w = w] oi by simp_all
  have nowrites: "filter is_write (issued w w1) = []"
    using nw by (simp add: list_all_iff filter_empty_conv)
  have early: ?thesis
    if r: "ezusb_load_eeprom dev path type config large_eeprom ww_config_vid ww_config_pid val0 w = (Return s, w1)"
      and s: "s < 0" for s
  proof -
    have "eeprom_writes w w1 = [] \<and> Return s \<noteq> Return 0"
      using s nowrites by (simp add: eeprom_writes_def)
    then show ?thesis unfolding r prod.case by (rule disjI1)
  qed
  show ?thesis
  proof (cases res)
    case (Inl status)
    have r: "ezusb_load_eeprom dev path type config large_eeprom ww_config_vid ww_config_pid val0 w = (Return status, w1)"
      using oi Inl by (simp add: load_eeprom_plan)
    have s: "status < 0" using res Inl by simp
    show ?thesis by (rule early[OF r s])
  next
    case (Inr image_opt)
    then have io: "image_opt = (case path of None \<Rightarrow> None | Some p \<Rightarrow> files w p)" using res by simp
    show ?thesis
    proof (cases "select_variant type (path \<noteq> None) config")
      case None
      have r: "ezusb_load_eeprom dev path type config large_eeprom ww_config_vid ww_config_pid val0 w = (Return (- 1), w1)"
        using oi Inr None by (simp add: load_eeprom_plan)
      show ?thesis by (rule early[OF r]) simp
    next
      case (Some v)
      let ?plan = "eeprom_ops req type v image_opt ww_config_vid ww_config_pid"
      obtain ok w' where rw: "run_writes dev ?plan w1 = (ok, w')" by (cases "run_writes dev ?plan w1")
      define r where "r = (if ok then image_status v image_opt else Return (- 1))"
      have run: "ezusb_load_eeprom dev path type config large_eeprom ww_config_vid ww_config_pid val0 w = (r, w')"
        using oi Inr Some rw by (simp add: load_eeprom_plan plan_result_def req_def eeprom_opcode_def r_def)
      have short: "list_all short_op ?plan"
        using eeprom_ops_shape[OF Some, of req image_opt ww_config_vid ww_config_pid] by blast
      define evs where "evs = issued w1 w'"
      have tr2: "trace w' = trace w1 @ evs" and post: "writes_post dev ?plan ok evs"
        using run_writes_trace[OF short, where dev = dev and w = w1] rw by (simp_all add: evs_def)
      have tr: "trace w' = trace w @ issued w w1 @ evs" using tr1 tr2 by simp
      have iss: "issued w w' = issued w w1 @ evs"
        unfolding issued_def[of w w'] by (subst tr) simp
      have ws: "eeprom_writes w w' = evs"
        using writes_post_is_write[OF post] nowrites
        by (simp add: eeprom_writes_def iss list_all_iff filter_id_conv)
      have there: "case path of None \<Rightarrow> True | Some p \<Rightarrow> files w p \<noteq> None"
        using oi Inr fl
        by (auto simp: open_image_def split: option.splits prod.splits if_splits) metis+
      have "select_variant type (path \<noteq> None) config = Some v \<and>
          (case path of None \<Rightarrow> True | Some p \<Rightarrow> files w p \<noteq> None) \<and>
          r = (if ok then image_status v image_opt else Return (- 1)) \<and>
          writes_post dev ?plan ok evs"
        using Some post r_def there by blast
      then show ?thesis
        unfolding run prod.case ws io[symmetric] req_def[symmetric] by blast
    qed
  qed
qed







section \<open>Loading the EEPROM: the cursor\<close>

lemma eeprom_frames_length: "length (eeprom_frames req lst c segs) = 2 * length segs"
  by (induction segs arbitrary: c) auto

lemma eeprom_frames_nth:
  assumes "k < length segs"
  shows "eeprom_frames req lst c segs ! (2 * k)
           = (req, frame_cursor c segs k,
              segment_header lst (fst (segs ! k)) (length (snd (snd (segs ! k))))) \<and>
         eeprom_frames req lst c segs ! (2 * k + 1)
           = (req, frame_cursor c segs k + 4, snd (snd (segs ! k)))"
  using assms
proof (induction segs arbitrary: c k)
  case Nil
  then show ?case by simp
next
  case (Cons s segs)
  obtain a e b where s: "s = (a, e, b)" by (cases s)
  show ?case
  proof (cases k)
    case 0
    then show ?thesis by (simp add: s frame_cursor_def framed_size_def)
  next
    case (Suc k')
    then have k': "k' < length segs" using Cons.prems by simp
    have fc: "frame_cursor c (s # segs) (Suc k') = frame_cursor (c + 4 + of_nat (length b)) segs k'"
      by (simp add: frame_cursor_def framed_size_def s algebra_simps)
    show ?thesis
      using Cons.IH[OF k', of "c + 4 + of_nat (length b)"]
      unfolding Suc fc by (simp add: s)
  qed
qed

lemma framed_size_take_step:
  assumes "j < length segs"
  shows "framed_size (take (Suc j) segs) = framed_size (take j segs) + 4 + length (snd (snd (segs ! j)))"
  using assms by (simp add: take_Suc_conv_app_nth framed_size_def)

lemma framed_size_take_less:
  assumes "j < k" and "k \<le> length segs"
  shows "framed_size (take j segs) < framed_size (take k segs)"
  using assms
proof (induction k)
  case 0
  then show ?case by simp
next
  case (Suc k)
  have st: "framed_size (take (Suc k) segs) = framed_size (take k segs) + 4 + length (snd (snd (segs ! k)))"
    using Suc.prems by (intro framed_size_take_step) simp
  show ?case
  proof (cases "j = k")
    case True
    then show ?thesis unfolding st by simp
  next
    case False
    then have "framed_size (take j segs) < framed_size (take k segs)"
      using Suc by simp
    then show ?thesis unfolding st by simp
  qed
qed

lemma framed_size_take_le: "framed_size (take k segs) \<le> framed_size segs"
proof -
  have "framed_size (take k segs) + framed_size (drop k segs) = framed_size segs"
    unfolding framed_size_def by (subst (3) append_take_drop_id[of k segs, symmetric]) (simp del: append_take_drop_id)
  then show ?thesis by simp
qed

lemma frame_cursor_unat:
  assumes "unat c + framed_size segs < 65536"
  shows "unat (frame_cursor c segs k) = unat c + framed_size (take k segs)"
proof -
  have le: "unat c + framed_size (take k segs) < 65536"
    using assms framed_size_take_le[of k segs] by simp
  then have "unat (of_nat (framed_size (take k segs)) :: ushort) = framed_size (take k segs)"
    by (simp add: unat_of_nat)
  then show ?thesis
    unfolding frame_cursor_def using le by (simp add: unat_add_lem[THEN iffD1])
qed

lemma frame_cursor_less:
  assumes "unat c + framed_size segs < 65536" and "j < k" and "k \<le> length segs"
  shows "frame_cursor c segs j < frame_cursor c segs k"
  unfolding word_less_nat_alt frame_cursor_unat[OF assms(1)]
  using framed_size_take_less[OF assms(2,3)] by simp

lemma pour_eeprom_poke_cursor:
  assumes "pour eeprom_poke segs (ctx, w) = (True, (ctx', w'))"
  shows "ee_addr ctx' = frame_cursor (ee_addr ctx) segs (length segs)"
proof -
  obtain c' where p: "pour eeprom_poke segs (ctx, w) =
     (case run_writes (device_e ctx)
             (eeprom_frames (eeprom_request ctx) (last_e ctx) (ee_addr ctx) (takeWhile valid_segment segs)) w of
        (ok, w') \<Rightarrow> (ok \<and> list_all valid_segment segs, (ctx\<lparr>ee_addr := c'\<rparr>, w')))"
    and c: "fst (pour eeprom_poke segs (ctx, w)) \<longrightarrow> c' = ee_addr ctx + of_nat (framed_size segs)"
    using pour_eeprom_poke[of segs ctx w] by blast
  have "c' = ee_addr ctx + of_nat (framed_size segs)" using c assms by simp
  moreover have "ctx' = ctx\<lparr>ee_addr := c'\<rparr>"
    using p assms by (simp split: prod.splits)
  ultimately show ?thesis by (simp add: frame_cursor_def)
qed

lemma load_eeprom_requests:
  assumes run: "ezusb_load_eeprom dev (Some p) type config large_eeprom ww_config_vid ww_config_pid val0 w
                  = (Return 0, w')"
  shows "\<exists>v img. select_variant type True config = Some v \<and> files w p = Some img \<and>
     image_complete (ihex_segments (Some (is_external_v v)) img) \<and>
     map ev_request (eeprom_writes w w')
       = map (op_request dev)
           (((eeprom_opcode large_eeprom, 0, [0]) # id_ops (eeprom_opcode large_eeprom) v ww_config_vid ww_config_pid)
            @ eeprom_frames (eeprom_opcode large_eeprom) False (ee_addr_v v)
                (snd (ihex_segments (Some (is_external_v v)) img))
            @ eeprom_frames (eeprom_opcode large_eeprom) True
                (ee_addr_v v + of_nat (framed_size (snd (ihex_segments (Some (is_external_v v)) img))))
                [(cpucs_addr_v v, False, [0])]
            @ trailer_ops (eeprom_opcode large_eeprom) type v)"
proof -
  define req where "req = eeprom_opcode large_eeprom"
  define ws where "ws = eeprom_writes w w'"
  have cs: "(ws = [] \<and> Return 0 \<noteq> Return 0) \<or>
       (\<exists>v ok.
          select_variant type True config = Some v \<and>
          files w p \<noteq> None \<and>
          Return 0 = (if ok then image_status v (files w p) else Return (- 1)) \<and>
          writes_post dev (eeprom_ops req type v (files w p) ww_config_vid ww_config_pid) ok ws)"
    using load_eeprom_cases[where dev = dev and path = "Some p" and type = type and config = config
        and large_eeprom = large_eeprom and ww_config_vid = ww_config_vid
        and ww_config_pid = ww_config_pid and ?val0.0 = val0 and w = w]
    unfolding run prod.case ws_def[symmetric] req_def[symmetric] option.case by simp
  then obtain v ok where sv: "select_variant type True config = Some v"
    and fl: "files w p \<noteq> None"
    and r: "Return 0 = (if ok then image_status v (files w p) else Return (- 1))"
    and post: "writes_post dev (eeprom_ops req type v (files w p) ww_config_vid ww_config_pid) ok ws"
    by blast
  obtain img where img: "files w p = Some img" using fl by auto
  have ok: ok and st: "image_status v (Some img) = Return 0"
    using r img by (auto split: if_splits)
  have ic: "image_complete (ihex_segments (Some (is_external_v v)) img)"
    using st by (simp add: image_status_complete)
  let ?plan = "eeprom_ops req type v (Some img) ww_config_vid ww_config_pid"
  have len: "length ws = length ?plan"
    and mp: "map ev_request ws = take (length ws) (map (op_request dev) ?plan)"
    using post ok img by (simp_all add: writes_post_def)
  have m: "map ev_request ws = map (op_request dev) ?plan"
    unfolding mp len by simp
  have plan: "?plan = ((req, 0, [0]) # id_ops req v ww_config_vid ww_config_pid)
            @ eeprom_frames req False (ee_addr_v v) (snd (ihex_segments (Some (is_external_v v)) img))
            @ eeprom_frames req True
                (ee_addr_v v + of_nat (framed_size (snd (ihex_segments (Some (is_external_v v)) img))))
                [(cpucs_addr_v v, False, [0])]
            @ trailer_ops req type v"
    using ic by (simp add: eeprom_ops_def image_ops_def Let_def)
  note m2 = m[unfolded plan]
  show ?thesis
    using sv img ic m2 unfolding ws_def req_def by blast
qed

lemma nth_in_plan:
  assumes "length A = n"
  shows "i < length F \<Longrightarrow> (A @ F @ R) ! (n + i) = F ! i"
    and "(A @ F @ R) ! (n + length F + j) = R ! j"
  using assms by (auto simp: nth_append)

text \<open>
  C5, as amended. After \<open>N\<close> segments that \<^verbatim>\<open>eeprom_poke\<close> has framed, the cursor
  \<^verbatim>\<open>ee_addr\<close> is its start plus \<open>4 + L\<close> for each of them, in 16-bit arithmetic. In a call
  of \<^verbatim>\<open>ezusb_load_eeprom\<close> with an image that returns 0, the cursor starts at the initial
  offset of the variant whether or not the identity record was written: the header of the
  \<open>k\<close>-th segment is written at the initial offset plus \<open>4 + L\<close> for each segment before
  it, its payload 4 bytes later, and the header of the reset frame at the cursor after all
  segments; the identity record, when written, is one more write before the frames and
  does not move the cursor. While the initial offset plus the frames stay below \<open>2 ^ 16\<close>
  the cursor strictly increases from one segment to the next.
\<close>

theorem load_eeprom_cursor:
  "(case pour eeprom_poke segs0 (ctx, w0) of
      (ok, (ctx', w1)) \<Rightarrow> ok \<longrightarrow> ee_addr ctx' = frame_cursor (ee_addr ctx) segs0 (length segs0)) \<and>
   (case ezusb_load_eeprom dev (Some p) type config large_eeprom ww_config_vid ww_config_pid val0 w of
      (r, w') \<Rightarrow>
        r = Return 0 \<longrightarrow>
          (case (select_variant type True config, files w p) of
             (Some v, Some img) \<Rightarrow>
               (let segs = snd (ihex_segments (Some (is_external_v v)) img);
                    rqs = map ev_request (eeprom_writes w w');
                    n = (if resolve_id ww_config_vid (ww_vid_v v) \<noteq> 0 \<and>
                            resolve_id ww_config_pid (ww_pid_v v) \<noteq> 0 then 2 else 1)
                in (\<forall>k<length segs.
                      rqs ! (n + 2 * k)
                        = (dev, write_request (eeprom_opcode large_eeprom)
                                  (frame_cursor (ee_addr_v v) segs k)
                                  (segment_header False (fst (segs ! k)) (length (snd (snd (segs ! k)))))) \<and>
                      rqs ! (n + 2 * k + 1)
                        = (dev, write_request (eeprom_opcode large_eeprom)
                                  (frame_cursor (ee_addr_v v) segs k + 4) (snd (snd (segs ! k))))) \<and>
                   rqs ! (n + 2 * length segs)
                     = (dev, write_request (eeprom_opcode large_eeprom)
                               (frame_cursor (ee_addr_v v) segs (length segs))
                               (segment_header True (cpucs_addr_v v) 1)) \<and>
                   n + 2 * length segs + 1 < length rqs \<and>
                   (unat (ee_addr_v v) + framed_size segs < 65536 \<longrightarrow>
                      (\<forall>j k. j < k \<and> k \<le> length segs \<longrightarrow>
                         frame_cursor (ee_addr_v v) segs j < frame_cursor (ee_addr_v v) segs k)))
           | _ \<Rightarrow> False))"
proof (rule conjI)
  show "case pour eeprom_poke segs0 (ctx, w0) of
      (ok, (ctx', w1)) \<Rightarrow> ok \<longrightarrow> ee_addr ctx' = frame_cursor (ee_addr ctx) segs0 (length segs0)"
    using pour_eeprom_poke_cursor[of segs0 ctx w0]
    by (cases "pour eeprom_poke segs0 (ctx, w0)") auto
next
  define req where "req = eeprom_opcode large_eeprom"
  obtain r w' where run: "ezusb_load_eeprom dev (Some p) type config large_eeprom ww_config_vid ww_config_pid val0 w = (r, w')"
    by (cases "ezusb_load_eeprom dev (Some p) type config large_eeprom ww_config_vid ww_config_pid val0 w")
  have main: "r = Return 0 \<longrightarrow>
          (case (select_variant type True config, files w p) of
             (Some v, Some img) \<Rightarrow>
               (let segs = snd (ihex_segments (Some (is_external_v v)) img);
                    rqs = map ev_request (eeprom_writes w w');
                    n = (if resolve_id ww_config_vid (ww_vid_v v) \<noteq> 0 \<and>
                            resolve_id ww_config_pid (ww_pid_v v) \<noteq> 0 then 2 else 1)
                in (\<forall>k<length segs.
                      rqs ! (n + 2 * k)
                        = (dev, write_request (eeprom_opcode large_eeprom)
                                  (frame_cursor (ee_addr_v v) segs k)
                                  (segment_header False (fst (segs ! k)) (length (snd (snd (segs ! k)))))) \<and>
                      rqs ! (n + 2 * k + 1)
                        = (dev, write_request (eeprom_opcode large_eeprom)
                                  (frame_cursor (ee_addr_v v) segs k + 4) (snd (snd (segs ! k))))) \<and>
                   rqs ! (n + 2 * length segs)
                     = (dev, write_request (eeprom_opcode large_eeprom)
                               (frame_cursor (ee_addr_v v) segs (length segs))
                               (segment_header True (cpucs_addr_v v) 1)) \<and>
                   n + 2 * length segs + 1 < length rqs \<and>
                   (unat (ee_addr_v v) + framed_size segs < 65536 \<longrightarrow>
                      (\<forall>j k. j < k \<and> k \<le> length segs \<longrightarrow>
                         frame_cursor (ee_addr_v v) segs j < frame_cursor (ee_addr_v v) segs k)))
           | _ \<Rightarrow> False)"
  proof
    assume r0: "r = Return 0"
    obtain v img where sv: "select_variant type True config = Some v"
      and img: "files w p = Some img"
      and rq: "map ev_request (eeprom_writes w w')
       = map (op_request dev)
           (((req, 0, [0]) # id_ops req v ww_config_vid ww_config_pid)
            @ eeprom_frames req False (ee_addr_v v) (snd (ihex_segments (Some (is_external_v v)) img))
            @ eeprom_frames req True
                (ee_addr_v v + of_nat (framed_size (snd (ihex_segments (Some (is_external_v v)) img))))
                [(cpucs_addr_v v, False, [0])]
            @ trailer_ops req type v)"
      using load_eeprom_requests[OF run[unfolded r0]] unfolding req_def by blast
    define segs where "segs = snd (ihex_segments (Some (is_external_v v)) img)"
    define rqs where "rqs = map ev_request (eeprom_writes w w')"
    define n :: nat where "n = (if resolve_id ww_config_vid (ww_vid_v v) \<noteq> 0 \<and>
                            resolve_id ww_config_pid (ww_pid_v v) \<noteq> 0 then 2 else 1)"
    define A where "A = (req, 0, [0]) # id_ops req v ww_config_vid ww_config_pid"
    define F where "F = eeprom_frames req False (ee_addr_v v) segs"
    define R where "R = eeprom_frames req True (ee_addr_v v + of_nat (framed_size segs))
                [(cpucs_addr_v v, False, [0])] @ trailer_ops req type v"
    have lA: "length A = n" by (simp add: A_def n_def id_ops_def)
    have lF: "length F = 2 * length segs" by (simp add: F_def eeprom_frames_length)
    have rqs: "rqs = map (op_request dev) (A @ F @ R)"
      unfolding rqs_def rq A_def F_def R_def segs_def by simp
    have lR: "2 \<le> length R" by (simp add: R_def)
    have len: "n + 2 * length segs + 1 < length rqs"
      unfolding rqs using lA lF lR by simp
    have frames: "rqs ! (n + 2 * k)
                        = (dev, write_request req (frame_cursor (ee_addr_v v) segs k)
                                  (segment_header False (fst (segs ! k)) (length (snd (snd (segs ! k)))))) \<and>
                      rqs ! (n + 2 * k + 1)
                        = (dev, write_request req (frame_cursor (ee_addr_v v) segs k + 4) (snd (snd (segs ! k))))"
      if k: "k < length segs" for k
    proof -
      have i0: "2 * k < length F" and i1: "2 * k + 1 < length F" using k lF by simp_all
      have b0: "n + 2 * k < length (A @ F @ R)" and b1: "n + 2 * k + 1 < length (A @ F @ R)"
        using lA i0 i1 by simp_all
      have e0: "(A @ F @ R) ! (n + 2 * k) = F ! (2 * k)" by (rule nth_in_plan(1)[OF lA i0])
      have e1: "(A @ F @ R) ! (n + (2 * k + 1)) = F ! (2 * k + 1)" by (rule nth_in_plan(1)[OF lA i1])
      have a1: "n + 2 * k + 1 = n + (2 * k + 1)" by simp
      have q0: "rqs ! (n + 2 * k) = op_request dev (F ! (2 * k))"
        unfolding rqs e0[symmetric] by (rule nth_map[OF b0])
      have "rqs ! (n + 2 * k + 1) = op_request dev ((A @ F @ R) ! (n + 2 * k + 1))"
        unfolding rqs by (rule nth_map[OF b1])
      then have q1: "rqs ! (n + 2 * k + 1) = op_request dev (F ! (2 * k + 1))"
        unfolding a1 e1 .
      have f: "F ! (2 * k) = (req, frame_cursor (ee_addr_v v) segs k,
              segment_header False (fst (segs ! k)) (length (snd (snd (segs ! k))))) \<and>
         F ! (2 * k + 1) = (req, frame_cursor (ee_addr_v v) segs k + 4, snd (snd (segs ! k)))"
        unfolding F_def by (rule eeprom_frames_nth[OF k])
      show ?thesis
        unfolding q0 q1 using f by (simp add: op_request_def)
    qed
    have reset: "rqs ! (n + 2 * length segs)
                     = (dev, write_request req (frame_cursor (ee_addr_v v) segs (length segs))
                               (segment_header True (cpucs_addr_v v) 1))"
    proof -
      have b: "n + 2 * length segs < length (A @ F @ R)" using lA lF lR by (simp only: length_append)
      have e: "(A @ F @ R) ! (n + length F + 0) = R ! 0" by (rule nth_in_plan(2)[OF lA])
      have a: "n + 2 * length segs = n + length F + 0" using lF by simp
      have r0: "R ! 0 = (req, ee_addr_v v + of_nat (framed_size segs), segment_header True (cpucs_addr_v v) 1)"
        by (simp add: R_def)
      have "rqs ! (n + 2 * length segs) = op_request dev ((A @ F @ R) ! (n + 2 * length segs))"
        unfolding rqs by (rule nth_map[OF b])
      then have "rqs ! (n + 2 * length segs) = op_request dev (R ! 0)"
        unfolding a e .
      then show ?thesis
        unfolding r0 by (simp add: op_request_def frame_cursor_def)
    qed
    have mono: "unat (ee_addr_v v) + framed_size segs < 65536 \<longrightarrow>
                      (\<forall>j k. j < k \<and> k \<le> length segs \<longrightarrow>
                         frame_cursor (ee_addr_v v) segs j < frame_cursor (ee_addr_v v) segs k)"
      using frame_cursor_less by blast
    show "case (select_variant type True config, files w p) of
             (Some v, Some img) \<Rightarrow>
               (let segs = snd (ihex_segments (Some (is_external_v v)) img);
                    rqs = map ev_request (eeprom_writes w w');
                    n = (if resolve_id ww_config_vid (ww_vid_v v) \<noteq> 0 \<and>
                            resolve_id ww_config_pid (ww_pid_v v) \<noteq> 0 then 2 else 1)
                in (\<forall>k<length segs.
                      rqs ! (n + 2 * k)
                        = (dev, write_request (eeprom_opcode large_eeprom)
                                  (frame_cursor (ee_addr_v v) segs k)
                                  (segment_header False (fst (segs ! k)) (length (snd (snd (segs ! k)))))) \<and>
                      rqs ! (n + 2 * k + 1)
                        = (dev, write_request (eeprom_opcode large_eeprom)
                                  (frame_cursor (ee_addr_v v) segs k + 4) (snd (snd (segs ! k))))) \<and>
                   rqs ! (n + 2 * length segs)
                     = (dev, write_request (eeprom_opcode large_eeprom)
                               (frame_cursor (ee_addr_v v) segs (length segs))
                               (segment_header True (cpucs_addr_v v) 1)) \<and>
                   n + 2 * length segs + 1 < length rqs \<and>
                   (unat (ee_addr_v v) + framed_size segs < 65536 \<longrightarrow>
                      (\<forall>j k. j < k \<and> k \<le> length segs \<longrightarrow>
                         frame_cursor (ee_addr_v v) segs j < frame_cursor (ee_addr_v v) segs k)))
           | _ \<Rightarrow> False"
      unfolding sv img prod.case option.case Let_def
        segs_def[symmetric] rqs_def[symmetric] n_def[symmetric] req_def[symmetric]
      using frames reset len mono by blast
  qed
  show "case ezusb_load_eeprom dev (Some p) type config large_eeprom ww_config_vid ww_config_pid val0 w of
      (r, w') \<Rightarrow>
        r = Return 0 \<longrightarrow>
          (case (select_variant type True config, files w p) of
             (Some v, Some img) \<Rightarrow>
               (let segs = snd (ihex_segments (Some (is_external_v v)) img);
                    rqs = map ev_request (eeprom_writes w w');
                    n = (if resolve_id ww_config_vid (ww_vid_v v) \<noteq> 0 \<and>
                            resolve_id ww_config_pid (ww_pid_v v) \<noteq> 0 then 2 else 1)
                in (\<forall>k<length segs.
                      rqs ! (n + 2 * k)
                        = (dev, write_request (eeprom_opcode large_eeprom)
                                  (frame_cursor (ee_addr_v v) segs k)
                                  (segment_header False (fst (segs ! k)) (length (snd (snd (segs ! k)))))) \<and>
                      rqs ! (n + 2 * k + 1)
                        = (dev, write_request (eeprom_opcode large_eeprom)
                                  (frame_cursor (ee_addr_v v) segs k + 4) (snd (snd (segs ! k))))) \<and>
                   rqs ! (n + 2 * length segs)
                     = (dev, write_request (eeprom_opcode large_eeprom)
                               (frame_cursor (ee_addr_v v) segs (length segs))
                               (segment_header True (cpucs_addr_v v) 1)) \<and>
                   n + 2 * length segs + 1 < length rqs \<and>
                   (unat (ee_addr_v v) + framed_size segs < 65536 \<longrightarrow>
                      (\<forall>j k. j < k \<and> k \<le> length segs \<longrightarrow>
                         frame_cursor (ee_addr_v v) segs j < frame_cursor (ee_addr_v v) segs k)))
           | _ \<Rightarrow> False)"
    using main unfolding run prod.case .
qed

lemma load_eeprom_run_no_identity:
  "ezusb_load_eeprom 3 (Some ''fw.hex'') ''fx2'' 0 False 0 (- 1) 0 (world_of good_device fw_files)
    = (Return 0,
       \<lparr>usbfs = good_device,
        trace = [(3, \<lparr>bRequestType = 0xC0, bRequest = 0xA5, wValue = 0, wIndex = 0, wLength = 1,
                      ctrl_timeout = 10000, ctrl_data = [0]\<rparr>, Transferred 1 [1]),
                 (3, write_request 0xA2 0 [0], Transferred 1 [1]),
                 (3, write_request 0xA2 8 [0, 1, 0, 0], Transferred 4 [1, 1, 1, 1]),
                 (3, write_request 0xA2 12 [0x55], Transferred 1 [1]),
                 (3, write_request 0xA2 13 [0x80, 1, 0xE6, 0], Transferred 4 [1, 1, 1, 1]),
                 (3, write_request 0xA2 17 [0], Transferred 1 [1]),
                 (3, write_request 0xA2 7 [0], Transferred 1 [1]),
                 (3, write_request 0xA2 0 [0xC2], Transferred 1 [1])],
        errno = 0, files = fw_files, verbose = 0\<rparr>)"
  by (simp add: eeprom_eval usb_eval parse_eval write_request_def fw_files_def)

text \<open>
  Two runs of \<^verbatim>\<open>fx2\<close> with an image of one segment of one byte, on a device that accepts
  everything: \<^verbatim>\<open>eeprom_poke\<close> moves the cursor from 8 to 13. With the default ids the
  identity record is the second write, the frame of the segment is written at 8 and 12 and
  the header of the reset frame at 13; with the vendor id overridden by 0 there is no
  identity record, and the frame and the reset frame are written at the same addresses.
\<close>

theorem load_eeprom_cursor_witness:
  "pour eeprom_poke [(0, False, [0x55])]
      (\<lparr>device_e = 3, ee_addr = 8, last_e = False, eeprom_request = 0xA2\<rparr>,
       world_of good_device fw_files)
     = (True, (\<lparr>device_e = 3, ee_addr = 13, last_e = False, eeprom_request = 0xA2\<rparr>,
               \<lparr>usbfs = good_device,
                trace = [(3, write_request 0xA2 8 [0, 1, 0, 0], Transferred 4 [1, 1, 1, 1]),
                         (3, write_request 0xA2 12 [0x55], Transferred 1 [1])],
                errno = 0, files = fw_files, verbose = 0\<rparr>)) \<and>
   frame_cursor 8 [(0, False, [0x55])] 1 = 13 \<and>
   fst (ezusb_load_eeprom 3 (Some ''fw.hex'') ''fx2'' 0 False (- 1) (- 1) 0
          (world_of good_device fw_files)) = Return 0 \<and>
   ihex_segments (Some fx2_is_external) '':0100000055AA\<newline>:00000001FF\<newline>''
     = (Return 0, [(0, False, [0x55])]) \<and>
   map ev_request (eeprom_writes (world_of good_device fw_files)
        (snd (ezusb_load_eeprom 3 (Some ''fw.hex'') ''fx2'' 0 False (- 1) (- 1) 0
                (world_of good_device fw_files)))) ! 2
     = (3, write_request 0xA2 8 (segment_header False 0 1)) \<and>
   map ev_request (eeprom_writes (world_of good_device fw_files)
        (snd (ezusb_load_eeprom 3 (Some ''fw.hex'') ''fx2'' 0 False (- 1) (- 1) 0
                (world_of good_device fw_files)))) ! 3
     = (3, write_request 0xA2 12 [0x55]) \<and>
   map ev_request (eeprom_writes (world_of good_device fw_files)
        (snd (ezusb_load_eeprom 3 (Some ''fw.hex'') ''fx2'' 0 False (- 1) (- 1) 0
                (world_of good_device fw_files)))) ! 4
     = (3, write_request 0xA2 13 (segment_header True 0xe600 1)) \<and>
   frame_cursor 8 [(0, False, [0x55])] 0 < frame_cursor 8 [(0, False, [0x55])] 1 \<and>
   fst (ezusb_load_eeprom 3 (Some ''fw.hex'') ''fx2'' 0 False 0 (- 1) 0
          (world_of good_device fw_files)) = Return 0 \<and>
   map ev_request (eeprom_writes (world_of good_device fw_files)
        (snd (ezusb_load_eeprom 3 (Some ''fw.hex'') ''fx2'' 0 False 0 (- 1) 0
                (world_of good_device fw_files)))) ! 1
     = (3, write_request 0xA2 8 (segment_header False 0 1)) \<and>
   map ev_request (eeprom_writes (world_of good_device fw_files)
        (snd (ezusb_load_eeprom 3 (Some ''fw.hex'') ''fx2'' 0 False 0 (- 1) 0
                (world_of good_device fw_files)))) ! 3
     = (3, write_request 0xA2 13 (segment_header True 0xe600 1))"
proof -
  let ?W = "world_of good_device fw_files"
  let ?ctx = "\<lparr>device_e = 3, ee_addr = 8, last_e = False, eeprom_request = 0xA2\<rparr>"
  have segs: "ihex_segments (Some fx2_is_external) '':0100000055AA\<newline>:00000001FF\<newline>''
     = (Return 0, [(0, False, [0x55])])"
    by (simp add: ihex_segments_def collect_def parse_eval fx2_is_external_def)
  have sv: "select_variant ''fx2'' True 0 =
      Some \<lparr>first_byte = 0xC2, cpucs_addr_v = 0xe600, is_external_v = fx2_is_external,
            ee_addr_v = 8, config_v = 0, ww_vid_v = 0x04B4, ww_pid_v = 0x6473\<rparr>"
    by (simp add: select_variant_def)
  have fl: "files ?W ''fw.hex'' = Some '':0100000055AA\<newline>:00000001FF\<newline>''"
    by (simp add: world_of_def fw_files_def)
  have pr: "pour eeprom_poke [(0, False, [0x55])] (?ctx, ?W)
     = (True, (\<lparr>device_e = 3, ee_addr = 13, last_e = False, eeprom_request = 0xA2\<rparr>,
               \<lparr>usbfs = good_device,
                trace = [(3, write_request 0xA2 8 [0, 1, 0, 0], Transferred 4 [1, 1, 1, 1]),
                         (3, write_request 0xA2 12 [0x55], Transferred 1 [1])],
                errno = 0, files = fw_files, verbose = 0\<rparr>))"
    by (simp add: eeprom_poke_def usb_eval write_request_def Let_def)
  have fc: "frame_cursor 8 [(0, False, [0x55])] 0 = 8" "frame_cursor 8 [(0, False, [0x55])] 1 = 13"
    by (simp_all add: frame_cursor_def framed_size_def)
  have rid: "resolve_id (- 1) 0x04B4 = 0x04B4" "resolve_id (- 1) 0x6473 = 0x6473"
    by (simp_all add: resolve_id_def)
  have rid0: "resolve_id 0 0x04B4 = 0" by (simp add: resolve_id_def)
  note t0 = load_eeprom_cursor[where ?segs0.0 = "[(0, False, [0x55])]" and ctx = ?ctx and ?w0.0 = ?W
      and dev = 3 and p = "''fw.hex''" and type = "''fx2''" and config = 0 and large_eeprom = False
      and ww_config_vid = 0 and ww_config_pid = "- 1" and ?val0.0 = 0 and w = ?W,
      unfolded load_eeprom_run_no_identity pr prod.case sv fl option.case Let_def segs snd_conv]
  note t = load_eeprom_cursor[where ?segs0.0 = "[(0, False, [0x55])]" and ctx = ?ctx and ?w0.0 = ?W
      and dev = 3 and p = "''fw.hex''" and type = "''fx2''" and config = 0 and large_eeprom = False
      and ww_config_vid = "- 1" and ww_config_pid = "- 1" and ?val0.0 = 0 and w = ?W,
      unfolded load_eeprom_run_complete pr prod.case sv fl option.case Let_def segs snd_conv]
  show ?thesis
    using t t0 unfolding load_eeprom_run_complete load_eeprom_run_no_identity pr segs
    by (simp add: fc rid rid0 eeprom_opcode_def RW_EEPROM_def eeprom_writes_def issued_def
        world_of_def is_write_def ev_request_def write_request_def segment_header_def)
qed

text \<open>
  C5 as stated fails in that run: the identity record of six bytes has been written and
  one segment of one byte has been framed, and the cursor, where the reset frame is
  written, is \<open>13 = 8 + (4 + 1)\<close>; with the size of the identity record added it would be
  19.
\<close>

theorem load_eeprom_cursor_skips_identity:
  "map (\<lambda>e. (wValue (snd (ev_request e)), ctrl_data (snd (ev_request e))))
     (eeprom_writes (world_of good_device fw_files)
        (snd (ezusb_load_eeprom 3 (Some ''fw.hex'') ''fx2'' 0 False (- 1) (- 1) 0
                (world_of good_device fw_files))))
     = [(0, [0]), (1, [0xB4, 0x04, 0x73, 0x64, 0x05, 0xA0]), (8, [0, 1, 0, 0]), (12, [0x55]),
        (13, [0x80, 1, 0xE6, 0]), (17, [0]), (7, [0]), (0, [0xC2])] \<and>
   (13 :: ushort) \<noteq> 8 + (4 + 1) + 6"
  unfolding load_eeprom_run_complete
  by (simp add: eeprom_writes_def issued_def world_of_def is_write_def ev_request_def
      write_request_def)

end
